theory Spec2Isabelle
  imports Main
begin

unbundle bit_operations_syntax

section \<open>Values, errors and processes\<close>

text \<open>
  A cell of a data frame. A missing field is \<open>VNaN\<close>; a field pandas left as text
  is \<open>VStr\<close>; \<open>VInt\<close> is a cell of an integer column (int64 or uint64) or a Python
  integer in a column of objects; \<open>VFloat m k\<close> is the finite float \<open>m / 2 ^ k\<close> of a
  float64 column (the column of numbers read from a file in which some field is missing).
\<close>

datatype val = VNaN | VStr string | VInt int | VFloat int nat

datatype py_error = ValueError | TypeError | KeyError | IndexError | OverflowError

text \<open>
  A run of (a part of) the program: it returns a value, leaves through \<open>exit(code)\<close>,
  or dies from an uncaught exception. Each outcome carries the lines printed so far.
\<close>

datatype 'a proc = Return 'a "string list" | Exited nat "string list" | Raised py_error "string list"

fun pbind :: "'a proc \<Rightarrow> ('a \<Rightarrow> 'b proc) \<Rightarrow> 'b proc" where
  "pbind (Return x out) k =
     (case k x of
        Return y out' \<Rightarrow> Return y (out @ out')
      | Exited c out' \<Rightarrow> Exited c (out @ out')
      | Raised e out' \<Rightarrow> Raised e (out @ out'))"
| "pbind (Exited c out) k = Exited c out"
| "pbind (Raised e out) k = Raised e out"

fun lift :: "py_error + 'a \<Rightarrow> 'a proc" where
  "lift (Inl e) = Raised e []"
| "lift (Inr x) = Return x []"

fun traverse :: "('a \<Rightarrow> py_error + 'b) \<Rightarrow> 'a list \<Rightarrow> py_error + 'b list" where
  "traverse f [] = Inr []"
| "traverse f (x # xs) =
     (case f x of
        Inl e \<Rightarrow> Inl e
      | Inr y \<Rightarrow> (case traverse f xs of Inl e \<Rightarrow> Inl e | Inr ys \<Rightarrow> Inr (y # ys)))"

section \<open>Command line and logging\<close>

text \<open>
  The parsed arguments, and what the run observes of the input path: its text
  (\<open>str(args.input)\<close>), whether it exists, its \<open>suffix\<close>, and the lines
  \<open>readlines()\<close> gives.
\<close>

record args =
  arg_input :: string
  arg_output :: string
  arg_debug :: bool
  arg_verbose :: bool

record input_file =
  in_exists :: bool
  in_suffix :: string
  in_lines :: "string list"

definition log :: "args \<Rightarrow> string \<Rightarrow> bool \<Rightarrow> bool \<Rightarrow> bool \<Rightarrow> unit proc" where
  "log a msg debug verbose fatal =
     (if debug \<and> arg_debug a then Return () [''DEBUG: '' @ msg]
      else if verbose \<and> arg_verbose a then Return () [''VERBOSE: '' @ msg]
      else if fatal then Exited 1 [''FATAL: '' @ msg]
      else Return () [''INFO: '' @ msg])"

section \<open>The row-skip pass\<close>

text \<open>\<open>line.split("\t")\<close>: the pieces of a line between occurrences of the separator.\<close>

fun split_chr :: "char \<Rightarrow> string \<Rightarrow> string list" where
  "split_chr sep [] = [[]]"
| "split_chr sep (c # cs) =
     (if c = sep then [] # split_chr sep cs
      else (case split_chr sep cs of
              [] \<Rightarrow> [[c]]
            | w # ws \<Rightarrow> (c # w) # ws))"

definition TAB :: char where
  "TAB = CHR 0x09"

text \<open>The list built by the loop of \<open>skip_rows\<close>, without the two log calls.\<close>

definition rows_to_skip :: "string list \<Rightarrow> nat list" where
  "rows_to_skip ls =
     map fst (filter (\<lambda>(i, line). length (split_chr TAB line) = 1) (enumerate 0 ls))"

text \<open>The text of a list of numbers in an f-string, as in \<open>[0, 1, 5]\<close>.\<close>

fun show_nat :: "nat \<Rightarrow> string" where
  "show_nat n =
     (if n < 10 then [''0123456789'' ! n]
      else show_nat (n div 10) @ [''0123456789'' ! (n mod 10)])"

fun join_comma :: "string list \<Rightarrow> string" where
  "join_comma [] = []"
| "join_comma [x] = x"
| "join_comma (x # y # ys) = x @ '', '' @ join_comma (y # ys)"

definition show_list :: "nat list \<Rightarrow> string" where
  "show_list xs = ''['' @ join_comma (map show_nat xs) @ '']''"

definition skip_rows :: "args \<Rightarrow> string list \<Rightarrow> nat list proc" where
  "skip_rows a ls =
     pbind (log a ''Determining rows to skip...'' True False False) (\<lambda>_.
     pbind (log a (''Rows to skip: '' @ show_list (rows_to_skip ls)) True False False) (\<lambda>_.
     Return (rows_to_skip ls) []))"

text \<open>
  The specification's words for the same pass, for comparison: the delimiter count of a
  line, and a count being modal among the lines of the table (no other count is more
  frequent).
\<close>

definition spec_delimiter_count :: "string \<Rightarrow> nat" where
  "spec_delimiter_count line = length (filter (\<lambda>c. c = TAB) line)"

definition spec_modal_count :: "string list \<Rightarrow> nat \<Rightarrow> bool" where
  "spec_modal_count ls c =
     (let counts = map spec_delimiter_count ls
      in c \<in> set counts \<and> list_all (\<lambda>d. count_list counts d \<le> count_list counts c) counts)"

section \<open>Data frames\<close>

text \<open>
  A frame is its columns in order, each a label with the cells of the column.
  \<open>df[k] = v\<close> replaces the column labelled \<open>k\<close> where it stands, or appends a new
  column; \<open>df[k]\<close> raises \<open>KeyError\<close> for a label the frame does not have.
\<close>

type_synonym frame = "(string \<times> val list) list"

fun setitem :: "frame \<Rightarrow> string \<Rightarrow> val list \<Rightarrow> frame" where
  "setitem [] k v = [(k, v)]"
| "setitem ((c, old) # df) k v = (if c = k then (k, v) # df else (c, old) # setitem df k v)"

fun getitem :: "frame \<Rightarrow> string \<Rightarrow> py_error + val list" where
  "getitem [] k = Inl KeyError"
| "getitem ((c, v) # df) k = (if c = k then Inr v else getitem df k)"

text \<open>\<open>df[keys]\<close>: the columns named by a list of labels, in the order of the list.\<close>

definition getitems :: "frame \<Rightarrow> string list \<Rightarrow> py_error + val list list" where
  "getitems df ks = traverse (getitem df) ks"

text \<open>\<open>df[keys] = columns\<close>: one assignment per label, in order.\<close>

definition setitems :: "frame \<Rightarrow> string list \<Rightarrow> val list list \<Rightarrow> frame" where
  "setitems df ks vs = fold (\<lambda>(k, v) d. setitem d k v) (zip ks vs) df"

text \<open>The cell of column \<open>k\<close> in row \<open>i\<close>, when the frame has that column and row.\<close>

definition cell :: "frame \<Rightarrow> string \<Rightarrow> nat \<Rightarrow> val option" where
  "cell df k i =
     (case getitem df k of
        Inl e \<Rightarrow> None
      | Inr col \<Rightarrow> if i < length col then Some (col ! i) else None)"

section \<open>The usage bitmask column\<close>

text \<open>
  \<open>int(s)\<close> on a string, base 10: surrounding white space is dropped, one sign is
  allowed, and the digits may be separated by single underscores.
\<close>

definition is_space :: "char \<Rightarrow> bool" where
  "is_space c = (c \<in> set [CHR '' '', CHR 0x09, CHR 0x0A, CHR 0x0B, CHR 0x0C, CHR 0x0D,
                           CHR 0x1C, CHR 0x1D, CHR 0x1E, CHR 0x1F])"

definition strip :: "string \<Rightarrow> string" where
  "strip s = rev (dropWhile is_space (rev (dropWhile is_space s)))"

definition is_digit :: "char \<Rightarrow> bool" where
  "is_digit c = (c \<in> set ''0123456789'')"

definition digit_val :: "char \<Rightarrow> nat" where
  "digit_val c = length (takeWhile (\<lambda>d. d \<noteq> c) ''0123456789'')"

fun digits_value :: "nat \<Rightarrow> string \<Rightarrow> nat option" where
  "digits_value acc [] = Some acc"
| "digits_value acc [c] = (if is_digit c then Some (10 * acc + digit_val c) else None)"
| "digits_value acc (c # d # ds) =
     (if is_digit c then digits_value (10 * acc + digit_val c) (d # ds)
      else if c = CHR ''_'' \<and> is_digit d then digits_value (10 * acc + digit_val d) ds
      else None)"

definition unsigned_value :: "string \<Rightarrow> nat option" where
  "unsigned_value s =
     (case s of
        [] \<Rightarrow> None
      | c # cs \<Rightarrow> if is_digit c then digits_value (digit_val c) cs else None)"

definition py_int :: "string \<Rightarrow> int option" where
  "py_int s =
     (case strip s of
        [] \<Rightarrow> None
      | c # cs \<Rightarrow>
          if c = CHR ''-'' then map_option (\<lambda>n. - int n) (unsigned_value cs)
          else if c = CHR ''+'' then map_option int (unsigned_value cs)
          else map_option int (unsigned_value (c # cs)))"

text \<open>
  \<open>.fillna(0)\<close>, \<open>.replace("-", 0)\<close> and \<open>.astype(int)\<close> on one cell. The target
  of \<open>astype(int)\<close> is int64. A text is converted by \<open>int(s)\<close> and must fit: outside
  int64 the cast raises \<open>OverflowError\<close>, as it does for a Python integer that fits
  neither int64 nor uint64. A cell of a uint64 column from \<open>2 ^ 63\<close> on wraps around to
  a negative value. A float is truncated towards zero; the conversion of a float outside
  int64 is the one of the C compiler, taken here to give \<open>- 2 ^ 63\<close>, as on x86-64.
\<close>

definition in_int64 :: "int \<Rightarrow> bool" where
  "in_int64 n = (- (2 ^ 63) \<le> n \<and> n < 2 ^ 63)"

definition trunc_float :: "int \<Rightarrow> nat \<Rightarrow> int" where
  "trunc_float m k = (if 0 \<le> m then m div 2 ^ k else - ((- m) div 2 ^ k))"

fun fillna :: "int \<Rightarrow> val \<Rightarrow> val" where
  "fillna n VNaN = VInt n"
| "fillna n v = v"

definition replace :: "string \<Rightarrow> int \<Rightarrow> val \<Rightarrow> val" where
  "replace s n v = (if v = VStr s then VInt n else v)"

fun astype_int :: "val \<Rightarrow> py_error + int" where
  "astype_int (VInt n) =
     (if in_int64 n then Inr n
      else if 2 ^ 63 \<le> n \<and> n < 2 ^ 64 then Inr (n - 2 ^ 64)
      else Inl OverflowError)"
| "astype_int (VStr s) =
     (case py_int s of
        None \<Rightarrow> Inl ValueError
      | Some n \<Rightarrow> if in_int64 n then Inr n else Inl OverflowError)"
| "astype_int (VFloat m k) =
     (if in_int64 (trunc_float m k) then Inr (trunc_float m k) else Inr (- (2 ^ 63)))"
| "astype_int VNaN = Inl ValueError"

text \<open>Line 97: the normalised \<open>NsxFInt\<close> column.\<close>

definition usage_mask :: "val \<Rightarrow> py_error + int" where
  "usage_mask v = astype_int (replace ''-'' 0 (fillna 0 v))"

definition normalise :: "val list \<Rightarrow> py_error + int list" where
  "normalise col = traverse usage_mask col"

section \<open>The feature catalog\<close>

text \<open>
  A row of \<open>nsx_features.csv\<close> as read: the three columns the program uses, missing
  where the field is empty, and the cells of any further columns. \<open>dropna()\<close> keeps the
  rows with no missing cell in any column; it does not change the type of a column. When
  some row of the file has no \<open>NSXFINT\<close> field, pandas has read that column as float64,
  and the bit values of the rows that are kept are floats: \<open>bit_value\<close> is then the
  integer such a float stands for, and \<open>nsxfint_is_float\<close> records the type.
\<close>

record raw_feature =
  raw_name :: "string option"
  raw_bit :: "int option"
  raw_edition :: "string option"
  raw_other :: "val list"

record feature =
  feature_name :: string
  bit_value :: int
  edition :: string

definition nsxfint_is_float :: "raw_feature list \<Rightarrow> bool" where
  "nsxfint_is_float rows = list_ex (\<lambda>r. raw_bit r = None) rows"

definition dropna :: "raw_feature list \<Rightarrow> feature list" where
  "dropna rows =
     concat (map (\<lambda>r.
       (case (raw_name r, raw_bit r, raw_edition r) of
          (Some n, Some b, Some e) \<Rightarrow>
            if VNaN \<in> set (raw_other r) then []
            else [\<lparr>feature_name = n, bit_value = b, edition = e\<rparr>]
        | _ \<Rightarrow> [])) rows)"

section \<open>Feature columns and editions\<close>

definition editions :: "string list" where
  "editions = ['''', ''Base'', ''Professional'', ''Advanced'', ''Enterprise Plus'']"

text \<open>\<open>xs.index(x)\<close>: the first position of \<open>x\<close>, \<open>ValueError\<close> when it is absent.\<close>

fun index :: "'a list \<Rightarrow> 'a \<Rightarrow> py_error + nat" where
  "index [] x = Inl ValueError"
| "index (y # ys) x =
     (if y = x then Inr 0 else (case index ys x of Inl e \<Rightarrow> Inl e | Inr i \<Rightarrow> Inr (Suc i)))"

text \<open>\<open>(column & bit) > 0\<close> on one cell.\<close>

fun and_positive :: "int \<Rightarrow> val \<Rightarrow> py_error + bool" where
  "and_positive b (VInt m) = Inr ((m AND b) > 0)"
| "and_positive b v = Inl TypeError"

text \<open>
  Lines 105 to 109, the column computed for one catalog row from the current \<open>NsxFInt\<close>
  column: the condition is evaluated first, then \<open>editions.index\<close>, then \<open>np.where\<close>.
\<close>

definition feature_column :: "feature \<Rightarrow> val list \<Rightarrow> py_error + val list" where
  "feature_column row col =
     (case traverse (and_positive (bit_value row)) col of
        Inl e \<Rightarrow> Inl e
      | Inr cond \<Rightarrow>
     (case index editions (edition row) of
        Inl e \<Rightarrow> Inl e
      | Inr r \<Rightarrow> Inr (map (\<lambda>c. VInt (if c then int r else 0)) cond)))"

text \<open>Lines 104 to 109: the loop over the catalog, one column assigned per row.\<close>

fun add_features :: "feature list \<Rightarrow> frame \<Rightarrow> py_error + frame" where
  "add_features [] df = Inr df"
| "add_features (row # rows) df =
     (case getitem df ''NsxFInt'' of
        Inl e \<Rightarrow> Inl e
      | Inr col \<Rightarrow>
     (case feature_column row col of
        Inl e \<Rightarrow> Inl e
      | Inr ranks \<Rightarrow> add_features rows (setitem df (feature_name row) ranks)))"

text \<open>
  \<open>.max(axis=1)\<close> over the selected columns, for a frame of \<open>n\<close> rows: with no column
  selected every row gets NaN.
\<close>

fun val_max :: "val \<Rightarrow> val \<Rightarrow> py_error + val" where
  "val_max (VInt a) (VInt b) = Inr (VInt (max a b))"
| "val_max a b = Inl TypeError"

fun col_max :: "val list \<Rightarrow> val list \<Rightarrow> py_error + val list" where
  "col_max (a # as) (b # bs) =
     (case val_max a b of
        Inl e \<Rightarrow> Inl e
      | Inr m \<Rightarrow> (case col_max as bs of Inl e \<Rightarrow> Inl e | Inr ms \<Rightarrow> Inr (m # ms)))"
| "col_max as bs = Inr []"

fun fold_max :: "val list \<Rightarrow> val list list \<Rightarrow> py_error + val list" where
  "fold_max acc [] = Inr acc"
| "fold_max acc (c # cs) = (case col_max acc c of Inl e \<Rightarrow> Inl e | Inr acc' \<Rightarrow> fold_max acc' cs)"

definition max_axis1 :: "nat \<Rightarrow> val list list \<Rightarrow> py_error + val list" where
  "max_axis1 n cols =
     (case cols of
        [] \<Rightarrow> Inr (replicate n VNaN)
      | c # cs \<Rightarrow> fold_max c cs)"

text \<open>\<open>np.where(cell > 0, True, "")\<close>: the result array is an array of strings.\<close>

fun where_positive :: "val \<Rightarrow> py_error + val" where
  "where_positive (VInt r) = Inr (VStr (if r > 0 then ''True'' else ''''))"
| "where_positive VNaN = Inr (VStr '''')"
| "where_positive (VFloat m k) = Inr (VStr (if m > 0 then ''True'' else ''''))"
| "where_positive (VStr s) = Inl TypeError"

text \<open>\<open>editions[x]\<close>, with Python's indexing from the end for a negative index.\<close>

fun edition_at :: "val \<Rightarrow> py_error + val" where
  "edition_at (VInt i) =
     (if 0 \<le> i \<and> i < int (length editions) then Inr (VStr (editions ! nat i))
      else if i < 0 \<and> - int (length editions) \<le> i
        then Inr (VStr (editions ! nat (int (length editions) + i)))
      else Inl IndexError)"
| "edition_at v = Inl TypeError"

text \<open>Line 112: the frame with the edition rank of every row.\<close>

definition edition_ranks :: "feature list \<Rightarrow> nat \<Rightarrow> frame \<Rightarrow> py_error + frame" where
  "edition_ranks cat n df =
     (case getitems df (map feature_name cat) of
        Inl e \<Rightarrow> Inl e
      | Inr cols \<Rightarrow>
     (case max_axis1 n cols of
        Inl e \<Rightarrow> Inl e
      | Inr m \<Rightarrow> Inr (setitem df ''NSX Edition'' m)))"

text \<open>Lines 113 to 115: the feature columns as markers.\<close>

definition feature_markers :: "feature list \<Rightarrow> frame \<Rightarrow> py_error + frame" where
  "feature_markers cat df =
     (case getitems df (map feature_name cat) of
        Inl e \<Rightarrow> Inl e
      | Inr cols \<Rightarrow>
     (case traverse (traverse where_positive) cols of
        Inl e \<Rightarrow> Inl e
      | Inr marks \<Rightarrow> Inr (setitems df (map feature_name cat) marks)))"

text \<open>Line 116: the edition rank replaced by the edition name.\<close>

definition edition_names :: "frame \<Rightarrow> py_error + frame" where
  "edition_names df =
     (case getitem df ''NSX Edition'' of
        Inl e \<Rightarrow> Inl e
      | Inr col \<Rightarrow>
     (case traverse edition_at col of
        Inl e \<Rightarrow> Inl e
      | Inr names \<Rightarrow> Inr (setitem df ''NSX Edition'' names)))"

text \<open>
  Lines 100 to 112 and 100 to 116, from the catalog and the report's rows (the \<open>Name\<close>
  cell and the normalised \<open>NsxFInt\<close> cell of each): the frame that holds the ranks,
  and the frame that is written.
\<close>

definition rank_table :: "feature list \<Rightarrow> (val \<times> int) list \<Rightarrow> py_error + frame" where
  "rank_table cat rows =
     (case add_features cat [(''Name'', map fst rows), (''NsxFInt'', map (\<lambda>r. VInt (snd r)) rows)] of
        Inl e \<Rightarrow> Inl e
      | Inr df \<Rightarrow> edition_ranks cat (length rows) df)"

definition nsxfint_table :: "feature list \<Rightarrow> (val \<times> int) list \<Rightarrow> py_error + frame" where
  "nsxfint_table cat rows =
     (case rank_table cat rows of
        Inl e \<Rightarrow> Inl e
      | Inr df \<Rightarrow>
     (case feature_markers cat df of
        Inl e \<Rightarrow> Inl e
      | Inr df' \<Rightarrow> edition_names df'))"

text \<open>
  The specification's words for the resolver, for comparison: the activation rule, the
  rank of an edition (its position in the list), and what a feature contributes to the
  edition rank of a row with usage mask \<open>m\<close>.
\<close>

definition spec_active :: "int \<Rightarrow> feature \<Rightarrow> bool" where
  "spec_active m f = (0 < (m AND bit_value f))"

definition spec_rank :: "string \<Rightarrow> nat" where
  "spec_rank e = (case index editions e of Inl err \<Rightarrow> 0 | Inr r \<Rightarrow> r)"

definition spec_contribution :: "int \<Rightarrow> feature \<Rightarrow> int" where
  "spec_contribution m f = (if spec_active m f then int (spec_rank (edition f)) else 0)"

section \<open>The program\<close>

text \<open>\<open>rename(columns={"#Name": "Name"})\<close>.\<close>

definition rename :: "frame \<Rightarrow> frame" where
  "rename df = map (\<lambda>(c, v). (if c = ''#Name'' then ''Name'' else c, v)) df"

text \<open>
  The tabular parser is a parameter: \<open>read_csv lines sep skiprows\<close> is the frame
  \<open>pd.read_csv\<close> builds from the lines of the input file (its column labels taken to
  be unique after the rename), or the exception it raises. Line 89 calls it with the
  tab separator and the rows found by \<open>skip_rows\<close>.
\<close>

type_synonym parser = "string list \<Rightarrow> char \<Rightarrow> nat list \<Rightarrow> py_error + frame"

definition read_vmh :: "parser \<Rightarrow> args \<Rightarrow> input_file \<Rightarrow> frame proc" where
  "read_vmh read_csv a f =
     pbind (skip_rows a (in_lines f)) (\<lambda>skip.
     lift (read_csv (in_lines f) TAB skip))"

text \<open>
  Lines 100 to 116 for the catalog as read. With a float64 \<open>NSXFINT\<close> column the first
  pass of the loop raises \<open>TypeError\<close> at \<open>nsxfint_df["NsxFInt"] & row["NSXFINT"]\<close>
  (an integer column and a float), whatever the rows and the editions are; with an
  integer column the table is the one of \<open>nsxfint_table\<close>.
\<close>

definition catalog_table :: "raw_feature list \<Rightarrow> (val \<times> int) list \<Rightarrow> py_error + frame" where
  "catalog_table nsx_features rows =
     (if nsxfint_is_float nsx_features \<and> dropna nsx_features \<noteq> [] then Inl TypeError
      else nsxfint_table (dropna nsx_features) rows)"

text \<open>
  For concrete runs: the parser of a report whose lines parse to a given frame.
\<close>

definition parsed_as :: "frame \<Rightarrow> parser" where
  "parsed_as df ls sep skip = Inr df"

text \<open>
  \<open>main\<close>. \<open>nsx_features\<close> is the bundled catalog as read. The result is the path and
  the table handed to \<open>to_csv\<close>; a run that does not return writes nothing.
\<close>

definition main :: "parser \<Rightarrow> raw_feature list \<Rightarrow> args \<Rightarrow> input_file \<Rightarrow> (string \<times> frame) proc" where
  "main read_csv nsx_features a f =
     pbind (if \<not> in_exists f then
              log a (''Input file '' @ arg_input a @ '' does not exist.'') False False True
            else if in_suffix f \<notin> set [''.csv'', ''.tsv''] then
              log a (''Input file '' @ arg_input a @ '' is not CSV or TSV.'') False False True
            else Return () []) (\<lambda>_.
     pbind (log a (''Reading input file '' @ arg_input a @ ''...'') False True False) (\<lambda>_.
     pbind (read_vmh read_csv a f) (\<lambda>vmh.
     pbind (log a ''Reading NSX Features...'' False True False) (\<lambda>_.
     pbind (lift (getitem (rename vmh) ''NsxFInt'')) (\<lambda>raw.
     pbind (lift (normalise raw)) (\<lambda>ms.
     pbind (lift (getitem (rename vmh) ''Name'')) (\<lambda>names.
     pbind (lift (catalog_table nsx_features (zip names ms))) (\<lambda>table.
     Return (arg_output a, table) []))))))))"

section \<open>Properties\<close>

subsection \<open>Lists of results and frames\<close>

lemma traverse_map_Inr:
  "(\<And>x. x \<in> set xs \<Longrightarrow> f x = Inr (g x)) \<Longrightarrow> traverse f xs = Inr (map g xs)"
  by (induction xs) auto


lemma traverse_map: "traverse f (map h xs) = traverse (\<lambda>x. f (h x)) xs"
  by (induction xs) (auto split: sum.splits)

lemma getitem_setitem:
  "getitem (setitem df k v) k' = (if k' = k then Inr v else getitem df k')"
  by (induction df k v rule: setitem.induct) auto

lemma keys_setitem:
  "map fst (setitem df k v) = (if k \<in> set (map fst df) then map fst df else map fst df @ [k])"
  by (induction df k v rule: setitem.induct) auto

lemma getitem_fold_other:
  "k \<notin> key ` set fs \<Longrightarrow>
   getitem (fold (\<lambda>f d. setitem d (key f) (col f)) fs df) k = getitem df k"
  by (induction fs arbitrary: df) (auto simp: getitem_setitem)

lemma getitem_fold_distinct:
  "distinct (map key fs) \<Longrightarrow> f \<in> set fs \<Longrightarrow>
   getitem (fold (\<lambda>f d. setitem d (key f) (col f)) fs df) (key f) = Inr (col f)"
proof (induction fs arbitrary: df)
  case Nil
  then show ?case by simp
next
  case (Cons g gs)
  show ?case
  proof (cases "f = g")
    case True
    with Cons.prems have "key g \<notin> key ` set gs" by auto
    then show ?thesis using True
      by (simp add: getitem_fold_other getitem_setitem)
  next
    case False
    with Cons show ?thesis by auto
  qed
qed

lemma keys_fold:
  "distinct (map key fs) \<Longrightarrow> set (map key fs) \<inter> set (map fst df) = {} \<Longrightarrow>
   map fst (fold (\<lambda>f d. setitem d (key f) (col f)) fs df) = map fst df @ map key fs"
proof (induction fs arbitrary: df)
  case Nil
  then show ?case by simp
next
  case (Cons g gs)
  have new: "key g \<notin> set (map fst df)"
    using Cons.prems(2) by auto
  have step: "map fst (setitem df (key g) (col g)) = map fst df @ [key g]"
    using new by (simp add: keys_setitem)
  have "set (map key gs) \<inter> set (map fst (setitem df (key g) (col g))) = {}"
    using Cons.prems by (auto simp: step)
  with Cons.IH [of "setitem df (key g) (col g)"] Cons.prems(1) step
  show ?case by simp
qed

lemma keys_fold_present:
  "key ` set fs \<subseteq> set (map fst df) \<Longrightarrow>
   map fst (fold (\<lambda>f d. setitem d (key f) (col f)) fs df) = map fst df"
proof (induction fs arbitrary: df)
  case Nil
  then show ?case by simp
next
  case (Cons g gs)
  from Cons.prems have "key g \<in> set (map fst df)" by simp
  then have same: "map fst (setitem df (key g) (col g)) = map fst df"
    by (simp add: keys_setitem)
  with Cons.prems have "key ` set gs \<subseteq> set (map fst (setitem df (key g) (col g)))"
    by simp
  from Cons.IH [OF this] same show ?case by simp
qed

lemma setitems_map:
  "setitems df (map key fs) (map col fs) = fold (\<lambda>f d. setitem d (key f) (col f)) fs df"
proof -
  have "zip (map key fs) (map col fs) = map (\<lambda>f. (key f, col f)) fs"
    by (induction fs) auto
  then show ?thesis
    by (simp add: setitems_def fold_map comp_def)
qed

lemma getitems_cols:
  assumes "\<And>f. f \<in> set fs \<Longrightarrow> getitem df (key f) = Inr (col f)"
  shows "getitems df (map key fs) = Inr (map col fs)"
  unfolding getitems_def traverse_map
  by (rule traverse_map_Inr) (rule assms)

lemma getitems_all:
  assumes "\<forall>k \<in> set ks. \<exists>c. getitem df k = Inr c \<and> P c"
  shows "\<exists>cols. getitems df ks = Inr cols \<and> length cols = length ks \<and> (\<forall>c \<in> set cols. P c)"
  using assms unfolding getitems_def
proof (induction ks)
  case Nil
  then show ?case by simp
next
  case (Cons k ks)
  from Cons.prems obtain c where c: "getitem df k = Inr c" "P c" by auto
  from Cons.IH Cons.prems obtain cols where
    "traverse (getitem df) ks = Inr cols" "length cols = length ks" "\<forall>c \<in> set cols. P c"
    by auto
  with c show ?case by simp
qed

lemma getitem_fold_pairs_other:
  "k \<notin> fst ` set kvs \<Longrightarrow> getitem (fold (\<lambda>(k, v) d. setitem d k v) kvs df) k = getitem df k"
  by (induction kvs arbitrary: df) (auto simp: getitem_setitem)

lemma getitem_fold_pairs_in:
  "k \<in> fst ` set kvs \<Longrightarrow>
   \<exists>v \<in> snd ` set kvs. getitem (fold (\<lambda>(k, v) d. setitem d k v) kvs df) k = Inr v"
proof (induction kvs arbitrary: df)
  case Nil
  then show ?case by simp
next
  case (Cons p ps)
  obtain k' v' where p: "p = (k', v')" by (cases p)
  show ?case
  proof (cases "k \<in> fst ` set ps")
    case True
    from Cons.IH [OF True, of "setitem df k' v'"] show ?thesis
      by (auto simp: p)
  next
    case False
    with Cons.prems p have "k = k'" by auto
    with False show ?thesis
      by (simp add: p getitem_fold_pairs_other getitem_setitem)
  qed
qed




subsection \<open>The row-skip pass\<close>

lemma length_split_chr: "length (split_chr sep s) = Suc (length (filter (\<lambda>c. c = sep) s))"
  by (induction s) (auto split: list.splits)

lemma one_piece_iff: "length (split_chr sep s) = Suc 0 \<longleftrightarrow> sep \<notin> set s"
  by (auto simp: length_split_chr filter_empty_conv)

lemma rows_to_skip_iff:
  "i \<in> set (rows_to_skip ls) \<longleftrightarrow> i < length ls \<and> TAB \<notin> set (ls ! i)"
  by (auto simp: rows_to_skip_def one_piece_iff in_set_enumerate_eq image_iff)

lemma skip_rows_returns:
  "\<exists>out. skip_rows a ls = Return (rows_to_skip ls) out"
  by (simp add: skip_rows_def log_def)

lemma rows_to_skip_none:
  assumes "\<forall>l \<in> set ls. TAB \<in> set l"
  shows "rows_to_skip ls = []"
proof (rule ccontr)
  assume "rows_to_skip ls \<noteq> []"
  then obtain i where "i \<in> set (rows_to_skip ls)"
    by (cases "rows_to_skip ls") auto
  then have "i < length ls" and "TAB \<notin> set (ls ! i)"
    by (simp_all add: rows_to_skip_iff)
  with assms show False
    using nth_mem by blast
qed

text \<open>
  C7 (as the code has it): the pass returns the list of skipped rows; a line is skipped
  exactly when it holds no tab character, whatever the delimiter counts of the other
  lines; so a table in which every line holds a tab has no skipped row.
\<close>

theorem skip_rows_no_tab:
  "(\<exists>out. skip_rows a ls = Return (rows_to_skip ls) out) \<and>
   (i \<in> set (rows_to_skip ls) \<longleftrightarrow> i < length ls \<and> TAB \<notin> set (ls ! i)) \<and>
   ((\<forall>l \<in> set ls. TAB \<in> set l) \<longrightarrow> rows_to_skip ls = [])"
  using skip_rows_returns [of a ls] rows_to_skip_iff [of i ls] rows_to_skip_none [of ls]
  by blast

text \<open>C7, at a two-line table with one tab on each line.\<close>

theorem skip_rows_no_tab_witness:
  "rows_to_skip [''Name'' @ [TAB] @ ''NsxFInt'', ''vm1'' @ [TAB] @ ''4''] = [] \<and>
   0 \<notin> set (rows_to_skip [''Name'' @ [TAB] @ ''NsxFInt'', ''vm1'' @ [TAB] @ ''4''])"
  using skip_rows_no_tab [of "\<lparr>arg_input = ''vmh.tsv'', arg_output = ''nsxfint.csv'',
      arg_debug = False, arg_verbose = False\<rparr>"
    "[''Name'' @ [TAB] @ ''NsxFInt'', ''vm1'' @ [TAB] @ ''4'']" 0]
  by simp

text \<open>
  C7 as stated fails: in this four-line report the modal delimiter count is 2, the first
  line has one delimiter, and the pass does not skip it.
\<close>

theorem modal_count_counterexample:
  "spec_modal_count [''# report'' @ [TAB] @ ''2023'', ''Name'' @ [TAB] @ ''NsxFInt'' @ [TAB] @ ''Cpu'',
       ''vm1'' @ [TAB] @ ''4'' @ [TAB] @ ''2'', ''vm2'' @ [TAB] @ ''0'' @ [TAB] @ ''8''] 2 \<and>
   spec_delimiter_count ([''# report'' @ [TAB] @ ''2023'', ''Name'' @ [TAB] @ ''NsxFInt'' @ [TAB] @ ''Cpu'',
       ''vm1'' @ [TAB] @ ''4'' @ [TAB] @ ''2'', ''vm2'' @ [TAB] @ ''0'' @ [TAB] @ ''8''] ! 0) \<noteq> 2 \<and>
   0 \<notin> set (rows_to_skip [''# report'' @ [TAB] @ ''2023'', ''Name'' @ [TAB] @ ''NsxFInt'' @ [TAB] @ ''Cpu'',
       ''vm1'' @ [TAB] @ ''4'' @ [TAB] @ ''2'', ''vm2'' @ [TAB] @ ''0'' @ [TAB] @ ''8''])"
  by (simp add: spec_modal_count_def spec_delimiter_count_def rows_to_skip_def TAB_def)

subsection \<open>Fatal input errors\<close>

text \<open>
  C8: when the input file does not exist, or its suffix is neither \<open>.csv\<close> nor
  \<open>.tsv\<close>, the run prints one FATAL line that names the path and leaves with exit
  status 1; nothing else is printed and no table is written.
\<close>

theorem main_fatal_input:
  assumes "\<not> in_exists f \<or> in_suffix f \<notin> set [''.csv'', ''.tsv'']"
  shows "main read_csv nsx_features a f =
           Exited 1 [''FATAL: Input file '' @ arg_input a @
             (if \<not> in_exists f then '' does not exist.'' else '' is not CSV or TSV.'')]"
  using assms by (auto simp: main_def log_def)

text \<open>C8, at an existing file \<open>report.txt\<close> and at a missing file \<open>vmh.tsv\<close>.\<close>

theorem main_fatal_input_witness:
  "main (parsed_as []) []
     \<lparr>arg_input = ''report.txt'', arg_output = ''nsxfint.csv'', arg_debug = True, arg_verbose = True\<rparr>
     \<lparr>in_exists = True, in_suffix = ''.txt'', in_lines = []\<rparr> =
   Exited 1 [''FATAL: Input file report.txt is not CSV or TSV.''] \<and>
   main (parsed_as []) []
     \<lparr>arg_input = ''vmh.tsv'', arg_output = ''nsxfint.csv'', arg_debug = False, arg_verbose = False\<rparr>
     \<lparr>in_exists = False, in_suffix = ''.tsv'', in_lines = []\<rparr> =
   Exited 1 [''FATAL: Input file vmh.tsv does not exist.'']"
  using main_fatal_input [of "\<lparr>in_exists = True, in_suffix = ''.txt'', in_lines = []\<rparr>"
    "parsed_as []" "[]"
    "\<lparr>arg_input = ''report.txt'', arg_output = ''nsxfint.csv'', arg_debug = True, arg_verbose = True\<rparr>"]
    main_fatal_input [of "\<lparr>in_exists = False, in_suffix = ''.tsv'', in_lines = []\<rparr>"
    "parsed_as []" "[]"
    "\<lparr>arg_input = ''vmh.tsv'', arg_output = ''nsxfint.csv'', arg_debug = False, arg_verbose = False\<rparr>"]
  by simp

subsection \<open>The separator of the input file\<close>

text \<open>
  C6 fails on the code: for a comma-delimited file \<open>vms.csv\<close>, which \<open>main\<close> accepts,
  the parser is called with the tab separator, and with every line of the file in the
  rows to skip, since no line holds a tab.
\<close>

theorem csv_read_with_tab:
  "read_vmh read_csv
     \<lparr>arg_input = ''vms.csv'', arg_output = ''nsxfint.csv'', arg_debug = False, arg_verbose = False\<rparr>
     \<lparr>in_exists = True, in_suffix = ''.csv'',
      in_lines = [''Name,NsxFInt'' @ [CHR 0x0A], ''vm1,4'' @ [CHR 0x0A]]\<rparr> =
   (case read_csv [''Name,NsxFInt'' @ [CHR 0x0A], ''vm1,4'' @ [CHR 0x0A]] (CHR 0x09) [0, 1] of
      Inl e \<Rightarrow> Raised e [''INFO: Determining rows to skip...'', ''INFO: Rows to skip: [0, 1]'']
    | Inr df \<Rightarrow> Return df [''INFO: Determining rows to skip...'', ''INFO: Rows to skip: [0, 1]''])"
  by (cases "read_csv [''Name,NsxFInt'' @ [CHR 0x0A], ''vm1,4'' @ [CHR 0x0A]] (CHR 0x09) [0, 1]")
    (simp_all add: read_vmh_def log_def skip_rows_def rows_to_skip_def show_list_def TAB_def)

subsection \<open>The usage bitmask column\<close>



lemma py_int_dash: "py_int ''-'' = None"
  by (simp add: py_int_def strip_def is_space_def unsigned_value_def)



lemma usage_mask_overflow:
  "py_int s = Some n \<Longrightarrow> \<not> in_int64 n \<Longrightarrow> usage_mask (VStr s) = Inl OverflowError"
  using py_int_dash by (auto simp: usage_mask_def replace_def)

lemma usage_mask_uint64_wraps: "usage_mask (VInt (2 ^ 63)) = Inr (- (2 ^ 63))"
  by (simp add: usage_mask_def replace_def in_int64_def)

lemma usage_mask_float_truncates:
  "usage_mask (VFloat 9 1) = Inr 4" and "usage_mask (VFloat (- 9) 1) = Inr (- 4)"
  by (simp_all add: usage_mask_def replace_def in_int64_def trunc_float_def)

subsection \<open>Edition ranks\<close>

lemma index_member:
  "e \<in> set xs \<Longrightarrow> \<exists>r. index xs e = Inr r \<and> r < length xs \<and> xs ! r = e"
  by (induction xs) auto

lemma index_absent: "e \<notin> set xs \<Longrightarrow> index xs e = Inl ValueError"
  by (induction xs) auto

lemma index_spec_rank:
  "e \<in> set editions \<Longrightarrow> index editions e = Inr (spec_rank e)"
  using index_member [of e editions] by (auto simp: spec_rank_def)

lemma spec_rank_less: "spec_rank e < 5"
proof (cases "e \<in> set editions")
  case True
  then show ?thesis
    using index_member [of e editions] by (auto simp: spec_rank_def editions_def)
next
  case False
  then show ?thesis by (simp add: spec_rank_def index_absent)
qed

lemma spec_rank_positive:
  "e \<in> set editions \<Longrightarrow> 0 < spec_rank e \<longleftrightarrow> e \<noteq> ''''"
  by (auto simp: spec_rank_def editions_def)

lemma spec_contribution_range: "0 \<le> spec_contribution m f \<and> spec_contribution m f < 5"
  using spec_rank_less [of "edition f"] by (simp add: spec_contribution_def)

lemma spec_contribution_positive:
  "edition f \<in> set editions \<Longrightarrow>
   0 < spec_contribution m f \<longleftrightarrow> 0 < (m AND bit_value f) \<and> edition f \<noteq> ''''"
  by (simp add: spec_contribution_def spec_active_def spec_rank_positive)

lemma Max_contribution_range:
  assumes "cat \<noteq> []"
  shows "0 \<le> Max (spec_contribution m ` set cat) \<and> Max (spec_contribution m ` set cat) < 5"
proof -
  have fin: "finite (spec_contribution m ` set cat)" and ne: "spec_contribution m ` set cat \<noteq> {}"
    using assms by auto
  have "Max (spec_contribution m ` set cat) \<in> spec_contribution m ` set cat"
    using Max_in [OF fin ne] .
  then show ?thesis
    using spec_contribution_range by auto
qed

lemma Max_insert_max:
  fixes a b :: int
  assumes "finite A"
  shows "Max (insert (max a b) A) = Max (insert a (insert b A))"
proof (cases "A = {}")
  case True
  then show ?thesis by (simp add: max.commute)
next
  case False
  with assms show ?thesis by (simp add: max.assoc)
qed

subsection \<open>The columns of one stage\<close>

lemma feature_column_ints:
  "feature_column f (map VInt ms) =
     (if edition f \<in> set editions then Inr (map (\<lambda>m. VInt (spec_contribution m f)) ms)
      else Inl ValueError)"
proof -
  have "traverse (and_positive (bit_value f)) (map VInt ms) = Inr (map (\<lambda>m. spec_active m f) ms)"
    unfolding traverse_map by (rule traverse_map_Inr) (simp add: spec_active_def)
  then show ?thesis
    by (simp add: feature_column_def index_spec_rank index_absent spec_contribution_def comp_def)
qed

lemma feature_column_valid:
  assumes "edition f \<in> set editions"
  shows "feature_column f (map (\<lambda>r. VInt (snd r)) rows) =
           Inr (map (\<lambda>r. VInt (spec_contribution (snd r) f)) rows)"
proof -
  have "traverse (and_positive (bit_value f)) (map (\<lambda>r. VInt (snd r)) rows) =
          Inr (map (\<lambda>v. case v of VInt m \<Rightarrow> spec_active m f | _ \<Rightarrow> False) (map (\<lambda>r. VInt (snd r)) rows))"
    by (rule traverse_map_Inr) (auto simp: spec_active_def)
  then show ?thesis
    using assms
    by (simp add: feature_column_def index_spec_rank spec_contribution_def comp_def)
qed


lemma col_max_ints:
  "col_max (map (\<lambda>r. VInt (g r)) rows) (map (\<lambda>r. VInt (h r)) rows) =
     Inr (map (\<lambda>r. VInt (max (g r) (h r))) rows)"
  by (induction rows) auto

lemma fold_max_ints:
  "fold_max (map (\<lambda>r. VInt (g r)) rows) (map (\<lambda>f. map (\<lambda>r. VInt (c r f)) rows) fs) =
     Inr (map (\<lambda>r. VInt (Max (insert (g r) (c r ` set fs)))) rows)"
proof (induction fs arbitrary: g)
  case Nil
  then show ?case by simp
next
  case (Cons f fs)
  have "Max (insert (max (g r) (c r f)) (c r ` set fs)) = Max (insert (g r) (c r ` set (f # fs)))" for r
    using Max_insert_max [of "c r ` set fs" "g r" "c r f"] by simp
  with Cons.IH [of "\<lambda>r. max (g r) (c r f)"] show ?case
    by (simp add: col_max_ints)
qed

lemma max_axis1_ints:
  assumes "fs \<noteq> []"
  shows "max_axis1 n (map (\<lambda>f. map (\<lambda>r. VInt (c r f)) rows) fs) =
           Inr (map (\<lambda>r. VInt (Max (c r ` set fs))) rows)"
proof -
  from assms obtain f fs' where fs: "fs = f # fs'" by (cases fs) auto
  show ?thesis
    using fold_max_ints [of "\<lambda>r. c r f" rows c fs'] by (simp add: fs max_axis1_def)
qed



lemma markers_ints:
  "traverse (traverse where_positive) (map (\<lambda>f. map (\<lambda>r. VInt (c r f)) rows) fs) =
     Inr (map (\<lambda>f. map (\<lambda>r. VStr (if 0 < c r f then ''True'' else '''')) rows) fs)"
proof -
  have "traverse where_positive (map (\<lambda>r. VInt (c r f)) rows) =
          Inr (map (\<lambda>r. VStr (if 0 < c r f then ''True'' else '''')) rows)" for f
    unfolding traverse_map by (rule traverse_map_Inr) simp
  then show ?thesis
    unfolding traverse_map by (intro traverse_map_Inr) simp
qed


lemma edition_at_ints:
  assumes "\<And>r. r \<in> set rows \<Longrightarrow> 0 \<le> g r \<and> g r < 5"
  shows "traverse edition_at (map (\<lambda>r. VInt (g r)) rows) =
           Inr (map (\<lambda>r. VStr (editions ! nat (g r))) rows)"
  unfolding traverse_map
  by (rule traverse_map_Inr) (use assms in \<open>auto simp: editions_def\<close>)

lemma col_max_ranks:
  assumes "length a = length b"
  shows "col_max (map VInt a) (map VInt b) = Inr (map VInt (map2 max a b))"
  using assms by (induction a b rule: list_induct2) auto

lemma fold_max_ranks:
  assumes "\<forall>c \<in> set cols. \<exists>rs. c = map VInt rs \<and> length rs = length a \<and> (\<forall>r \<in> set rs. 0 \<le> r \<and> r < 5)"
    and "\<forall>r \<in> set a. 0 \<le> r \<and> r < 5"
  shows "\<exists>rs. fold_max (map VInt a) cols = Inr (map VInt rs) \<and> length rs = length a \<and>
           (\<forall>r \<in> set rs. 0 \<le> r \<and> r < 5)"
  using assms
proof (induction cols arbitrary: a)
  case Nil
  then show ?case by auto
next
  case (Cons c cs)
  from Cons.prems(1) obtain b where
    b: "c = map VInt b" "length b = length a" "\<forall>r \<in> set b. 0 \<le> r \<and> r < 5"
    by auto
  let ?m = "map2 max a b"
  have step: "col_max (map VInt a) c = Inr (map VInt ?m)"
    using col_max_ranks [of a b] b by simp
  have len: "length ?m = length a"
    using b(2) by simp
  have range: "\<forall>r \<in> set ?m. 0 \<le> r \<and> r < 5"
  proof
    fix r assume "r \<in> set ?m"
    then obtain x y where "(x, y) \<in> set (zip a b)" and r: "r = max x y"
      by auto
    then have "x \<in> set a" and "y \<in> set b"
      by (auto dest: set_zip_leftD set_zip_rightD)
    with Cons.prems(2) b(3) r show "0 \<le> r \<and> r < 5"
      by (auto simp: max_def)
  qed
  have "\<forall>c \<in> set cs. \<exists>rs. c = map VInt rs \<and> length rs = length ?m \<and> (\<forall>r \<in> set rs. 0 \<le> r \<and> r < 5)"
    using Cons.prems(1) len by simp
  from Cons.IH [OF this range] step len show ?case
    by simp
qed

subsection \<open>The table for a catalog with distinct feature names\<close>

lemma add_features_valid:
  assumes "getitem df ''NsxFInt'' = Inr (map (\<lambda>r. VInt (snd r)) rows)"
    and "''NsxFInt'' \<notin> feature_name ` set cat"
    and "\<forall>f \<in> set cat. edition f \<in> set editions"
  shows "add_features cat df =
           Inr (fold (\<lambda>f d. setitem d (feature_name f)
                  (map (\<lambda>r. VInt (spec_contribution (snd r) f)) rows)) cat df)"
  using assms
proof (induction cat arbitrary: df)
  case Nil
  then show ?case by simp
next
  case (Cons g gs)
  let ?df = "setitem df (feature_name g) (map (\<lambda>r. VInt (spec_contribution (snd r) g)) rows)"
  have "getitem ?df ''NsxFInt'' = Inr (map (\<lambda>r. VInt (snd r)) rows)"
    using Cons.prems by (auto simp: getitem_setitem)
  with Cons.IH [of ?df] Cons.prems
  show ?case by (simp add: feature_column_valid)
qed

lemma rank_table_valid:
  assumes ne: "cat \<noteq> []"
    and dist: "distinct (map feature_name cat)"
    and mask: "''NsxFInt'' \<notin> feature_name ` set cat"
    and eds: "\<forall>f \<in> set cat. edition f \<in> set editions"
  shows "rank_table cat rows =
           Inr (setitem
                  (fold (\<lambda>f d. setitem d (feature_name f)
                           (map (\<lambda>r. VInt (spec_contribution (snd r) f)) rows)) cat
                     [(''Name'', map fst rows), (''NsxFInt'', map (\<lambda>r. VInt (snd r)) rows)])
                  ''NSX Edition''
                  (map (\<lambda>r. VInt (Max ((\<lambda>f. spec_contribution (snd r) f) ` set cat))) rows))"
proof -
  let ?df0 = "[(''Name'', map fst rows), (''NsxFInt'', map (\<lambda>r. VInt (snd r)) rows)]"
  let ?col = "\<lambda>f. map (\<lambda>r. VInt (spec_contribution (snd r) f)) rows"
  let ?df1 = "fold (\<lambda>f d. setitem d (feature_name f) (?col f)) cat ?df0"
  have loop: "add_features cat ?df0 = Inr ?df1"
    using mask eds by (intro add_features_valid) simp_all
  have sel: "getitems ?df1 (map feature_name cat) = Inr (map ?col cat)"
    by (rule getitems_cols) (rule getitem_fold_distinct [OF dist])
  have mx: "max_axis1 (length rows) (map ?col cat) =
              Inr (map (\<lambda>r. VInt (Max ((\<lambda>f. spec_contribution (snd r) f) ` set cat))) rows)"
    using max_axis1_ints [OF ne, of "length rows" "\<lambda>r f. spec_contribution (snd r) f" rows] .
  show ?thesis
    by (simp add: rank_table_def loop edition_ranks_def sel mx)
qed

lemma nsxfint_table_valid:
  assumes ne: "cat \<noteq> []"
    and dist: "distinct (map feature_name cat)"
    and mask: "''NsxFInt'' \<notin> feature_name ` set cat"
    and ed: "''NSX Edition'' \<notin> feature_name ` set cat"
    and eds: "\<forall>f \<in> set cat. edition f \<in> set editions"
  shows "nsxfint_table cat rows =
           Inr (setitem
                  (fold (\<lambda>f d. setitem d (feature_name f)
                           (map (\<lambda>r. VStr (if 0 < spec_contribution (snd r) f then ''True'' else '''')) rows))
                     cat
                     (setitem
                        (fold (\<lambda>f d. setitem d (feature_name f)
                                 (map (\<lambda>r. VInt (spec_contribution (snd r) f)) rows)) cat
                           [(''Name'', map fst rows), (''NsxFInt'', map (\<lambda>r. VInt (snd r)) rows)])
                        ''NSX Edition''
                        (map (\<lambda>r. VInt (Max ((\<lambda>f. spec_contribution (snd r) f) ` set cat))) rows)))
                  ''NSX Edition''
                  (map (\<lambda>r. VStr (editions ! nat (Max ((\<lambda>f. spec_contribution (snd r) f) ` set cat)))) rows))"
proof -
  let ?df0 = "[(''Name'', map fst rows), (''NsxFInt'', map (\<lambda>r. VInt (snd r)) rows)]"
  let ?col = "\<lambda>f. map (\<lambda>r. VInt (spec_contribution (snd r) f)) rows"
  let ?mark = "\<lambda>f. map (\<lambda>r. VStr (if 0 < spec_contribution (snd r) f then ''True'' else '''')) rows"
  let ?mx = "map (\<lambda>r. VInt (Max ((\<lambda>f. spec_contribution (snd r) f) ` set cat))) rows"
  let ?df1 = "fold (\<lambda>f d. setitem d (feature_name f) (?col f)) cat ?df0"
  let ?df2 = "setitem ?df1 ''NSX Edition'' ?mx"
  let ?df3 = "fold (\<lambda>f d. setitem d (feature_name f) (?mark f)) cat ?df2"
  have ranks: "rank_table cat rows = Inr ?df2"
    by (rule rank_table_valid [OF ne dist mask eds])
  have "getitem ?df2 (feature_name f) = Inr (?col f)" if "f \<in> set cat" for f
  proof -
    have "feature_name f \<noteq> ''NSX Edition''"
      using that ed by (metis imageI)
    then show ?thesis
      using getitem_fold_distinct [OF dist that, of "?col" ?df0]
      by (simp add: getitem_setitem)
  qed
  then have sel: "getitems ?df2 (map feature_name cat) = Inr (map ?col cat)"
    by (rule getitems_cols)
  have marks: "traverse (traverse where_positive) (map ?col cat) = Inr (map ?mark cat)"
    using markers_ints [of "\<lambda>r f. spec_contribution (snd r) f" rows cat] .
  have fm: "feature_markers cat ?df2 = Inr ?df3"
    by (simp add: feature_markers_def sel marks setitems_map)
  have "getitem ?df3 ''NSX Edition'' = getitem ?df2 ''NSX Edition''"
    using ed by (rule getitem_fold_other)
  then have edcol: "getitem ?df3 ''NSX Edition'' = Inr ?mx"
    by (simp add: getitem_setitem)
  have names: "traverse edition_at ?mx =
                 Inr (map (\<lambda>r. VStr (editions ! nat (Max ((\<lambda>f. spec_contribution (snd r) f) ` set cat)))) rows)"
    by (rule edition_at_ints) (rule Max_contribution_range [OF ne])
  show ?thesis
    by (simp add: nsxfint_table_def ranks fm edition_names_def edcol names)
qed

lemma nsxfint_table_columns:
  assumes "cat \<noteq> []"
    and "distinct (map feature_name cat)"
    and "''NsxFInt'' \<notin> feature_name ` set cat"
    and "''NSX Edition'' \<notin> feature_name ` set cat"
    and "\<forall>f \<in> set cat. edition f \<in> set editions"
  shows "\<exists>out.
           nsxfint_table cat rows = Inr out \<and>
           getitem out ''NSX Edition'' =
             Inr (map (\<lambda>r. VStr (editions ! nat (Max ((\<lambda>f. spec_contribution (snd r) f) ` set cat)))) rows) \<and>
           (\<forall>f \<in> set cat.
              getitem out (feature_name f) =
                Inr (map (\<lambda>r. VStr (if 0 < (snd r AND bit_value f) \<and> edition f \<noteq> ''''
                                      then ''True'' else '''')) rows))"
proof -
  let ?mark = "\<lambda>f. map (\<lambda>r. VStr (if 0 < spec_contribution (snd r) f then ''True'' else '''')) rows"
  have "getitem (setitem (fold (\<lambda>f d. setitem d (feature_name f) (?mark f)) cat df) ''NSX Edition'' nm)
          (feature_name f) =
        Inr (map (\<lambda>r. VStr (if 0 < (snd r AND bit_value f) \<and> edition f \<noteq> ''''
                              then ''True'' else '''')) rows)"
    if f: "f \<in> set cat" for f df nm
  proof -
    have "feature_name f \<noteq> ''NSX Edition''"
      using assms(4) f by (metis imageI)
    moreover have "edition f \<in> set editions"
      using assms(5) f by blast
    then have "?mark f = map (\<lambda>r. VStr (if 0 < (snd r AND bit_value f) \<and> edition f \<noteq> ''''
                                     then ''True'' else '''')) rows"
      by (simp add: spec_contribution_positive)
    ultimately show ?thesis
      using getitem_fold_distinct [OF assms(2) f, of ?mark df] by (simp add: getitem_setitem)
  qed
  then show ?thesis
    using nsxfint_table_valid [OF assms, of rows] by (simp add: getitem_setitem)
qed

lemma nsxfint_table_keys:
  assumes ne: "cat \<noteq> []"
    and dist: "distinct (map feature_name cat)"
    and name: "''Name'' \<notin> feature_name ` set cat"
    and mask: "''NsxFInt'' \<notin> feature_name ` set cat"
    and ed: "''NSX Edition'' \<notin> feature_name ` set cat"
    and eds: "\<forall>f \<in> set cat. edition f \<in> set editions"
  shows "\<exists>ranks out.
           rank_table cat rows = Inr ranks \<and> nsxfint_table cat rows = Inr out \<and>
           map fst out = [''Name'', ''NsxFInt''] @ map feature_name cat @ [''NSX Edition''] \<and>
           (\<forall>f \<in> set cat. \<exists>col.
              getitem ranks (feature_name f) = Inr (map VInt col) \<and>
              getitem out (feature_name f) =
                Inr (map (\<lambda>r. VStr (if 0 < r then ''True'' else '''')) col))"
proof -
  let ?df0 = "[(''Name'', map fst rows), (''NsxFInt'', map (\<lambda>r. VInt (snd r)) rows)]"
  let ?col = "\<lambda>f. map (\<lambda>r. VInt (spec_contribution (snd r) f)) rows"
  let ?mark = "\<lambda>f. map (\<lambda>r. VStr (if 0 < spec_contribution (snd r) f then ''True'' else '''')) rows"
  let ?mx = "map (\<lambda>r. VInt (Max ((\<lambda>f. spec_contribution (snd r) f) ` set cat))) rows"
  let ?nm = "map (\<lambda>r. VStr (editions ! nat (Max ((\<lambda>f. spec_contribution (snd r) f) ` set cat)))) rows"
  let ?df1 = "fold (\<lambda>f d. setitem d (feature_name f) (?col f)) cat ?df0"
  let ?df2 = "setitem ?df1 ''NSX Edition'' ?mx"
  let ?df3 = "fold (\<lambda>f d. setitem d (feature_name f) (?mark f)) cat ?df2"
  let ?out = "setitem ?df3 ''NSX Edition'' ?nm"
  have ranks: "rank_table cat rows = Inr ?df2"
    by (rule rank_table_valid [OF ne dist mask eds])
  have out: "nsxfint_table cat rows = Inr ?out"
    by (rule nsxfint_table_valid [OF ne dist mask ed eds])
  have "set (map feature_name cat) \<inter> set (map fst ?df0) = {}"
    using name mask by auto
  from keys_fold [OF dist this, of ?col]
  have k1: "map fst ?df1 = [''Name'', ''NsxFInt''] @ map feature_name cat"
    by simp
  have "''NSX Edition'' \<notin> set (map fst ?df1)"
    using ed by (simp add: k1)
  then have k2: "map fst ?df2 = [''Name'', ''NsxFInt''] @ map feature_name cat @ [''NSX Edition'']"
    using k1 by (simp add: keys_setitem)
  have "feature_name ` set cat \<subseteq> set (map fst ?df2)"
    by (auto simp: k2)
  from keys_fold_present [OF this, of ?mark]
  have k3: "map fst ?df3 = [''Name'', ''NsxFInt''] @ map feature_name cat @ [''NSX Edition'']"
    using k2 by simp
  have "''NSX Edition'' \<in> set (map fst ?df3)"
    by (simp add: k3)
  then have keys: "map fst ?out = [''Name'', ''NsxFInt''] @ map feature_name cat @ [''NSX Edition'']"
    using k3 by (simp add: keys_setitem)
  have cols: "\<exists>col. getitem ?df2 (feature_name f) = Inr (map VInt col) \<and>
                getitem ?out (feature_name f) =
                  Inr (map (\<lambda>r. VStr (if 0 < r then ''True'' else '''')) col)"
    if f: "f \<in> set cat" for f
  proof -
    have n: "feature_name f \<noteq> ''NSX Edition''"
      using f ed by (metis imageI)
    have "getitem ?df2 (feature_name f) = Inr (?col f)"
      using n getitem_fold_distinct [OF dist f, of ?col ?df0] by (simp add: getitem_setitem)
    moreover have "getitem ?out (feature_name f) = Inr (?mark f)"
      using n getitem_fold_distinct [OF dist f, of ?mark ?df2] by (simp add: getitem_setitem)
    moreover have "?col f = map VInt (map (\<lambda>r. spec_contribution (snd r) f) rows)"
      by simp
    moreover have "?mark f = map (\<lambda>r. VStr (if 0 < r then ''True'' else ''''))
                               (map (\<lambda>r. spec_contribution (snd r) f) rows)"
      by simp
    ultimately show ?thesis by metis
  qed
  from ranks out keys cols show ?thesis by blast
qed

subsection \<open>Runs that fail, and what a returning run has written\<close>

lemma add_features_invalid:
  assumes "\<exists>f \<in> set cat. edition f \<notin> set editions"
    and "getitem df ''NsxFInt'' = Inr (map VInt ms)"
  shows "add_features cat df = Inl ValueError"
  using assms
proof (induction cat arbitrary: df ms)
  case Nil
  then show ?case by simp
next
  case (Cons g gs)
  show ?case
  proof (cases "edition g \<in> set editions")
    case False
    then show ?thesis
      using Cons.prems(2) by (simp add: feature_column_ints)
  next
    case True
    let ?col = "map (\<lambda>m. VInt (spec_contribution m g)) ms"
    let ?df = "setitem df (feature_name g) ?col"
    have rest: "\<exists>f \<in> set gs. edition f \<notin> set editions"
      using Cons.prems(1) True by auto
    have "\<exists>ms'. getitem ?df ''NsxFInt'' = Inr (map VInt ms')"
    proof (cases "feature_name g = ''NsxFInt''")
      case True
      have "?col = map VInt (map (\<lambda>m. spec_contribution m g) ms)" by simp
      then show ?thesis
        using True by (metis getitem_setitem)
    next
      case False
      then show ?thesis
        using Cons.prems(2) by (metis getitem_setitem)
    qed
    then obtain ms' where "getitem ?df ''NsxFInt'' = Inr (map VInt ms')" ..
    from Cons.IH [OF rest this] show ?thesis
      using Cons.prems(2) True by (simp add: feature_column_ints)
  qed
qed

lemma nsxfint_table_invalid:
  assumes "f \<in> set cat" and "edition f \<notin> set editions"
  shows "nsxfint_table cat rows = Inl ValueError"
proof -
  have "getitem [(''Name'', map fst rows), (''NsxFInt'', map (\<lambda>r. VInt (snd r)) rows)] ''NsxFInt'' =
          Inr (map VInt (map snd rows))"
    by simp
  then have "add_features cat [(''Name'', map fst rows), (''NsxFInt'', map (\<lambda>r. VInt (snd r)) rows)] =
          Inl ValueError"
    using assms by (intro add_features_invalid) blast+
  then show ?thesis
    by (simp add: nsxfint_table_def rank_table_def)
qed

lemma nsxfint_table_empty:
  "nsxfint_table [] rows =
     (if rows = [] then Inr [(''Name'', []), (''NsxFInt'', []), (''NSX Edition'', [])]
      else Inl TypeError)"
proof (cases rows)
  case Nil
  then show ?thesis
    by (simp add: nsxfint_table_def rank_table_def edition_ranks_def getitems_def max_axis1_def
        feature_markers_def setitems_def edition_names_def)
next
  case (Cons r rs)
  then show ?thesis
    by (simp add: nsxfint_table_def rank_table_def edition_ranks_def getitems_def max_axis1_def
        feature_markers_def setitems_def edition_names_def)
qed

lemma rank_table_empty:
  "rank_table [] [] = Inr [(''Name'', []), (''NsxFInt'', []), (''NSX Edition'', [])]"
  by (simp add: rank_table_def edition_ranks_def getitems_def max_axis1_def)

lemma float_catalog_raises:
  assumes "nsxfint_is_float nsx_features" and "dropna nsx_features \<noteq> []"
  shows "catalog_table nsx_features rows = Inl TypeError"
  using assms by (simp add: catalog_table_def)

lemma float_catalog_example:
  "catalog_table
     [\<lparr>raw_name = Some ''Switching'', raw_bit = None, raw_edition = Some ''Base'', raw_other = []\<rparr>,
      \<lparr>raw_name = Some ''Firewall'', raw_bit = Some 2, raw_edition = Some ''Advanced'', raw_other = []\<rparr>]
     [(VStr ''vm1'', 2)] = Inl TypeError"
  by (simp add: catalog_table_def nsxfint_is_float_def dropna_def)

lemma pbind_Return:
  assumes "pbind p k = Return y out"
  obtains x o1 o2 where "p = Return x o1" and "k x = Return y o2" and "out = o1 @ o2"
  using assms by (cases p; cases "k (case p of Return x _ \<Rightarrow> x)") auto

lemma lift_Return: "lift r = Return x out \<Longrightarrow> r = Inr x"
  by (cases r) auto

lemma main_Return:
  assumes "main read_csv nsx_features a inp = Return res out"
  shows "\<exists>rows table. nsxfint_table (dropna nsx_features) rows = Inr table \<and>
           res = (arg_output a, table)"
proof -
  have "nsxfint_table (dropna nsx_features) rows = Inr table"
    if "catalog_table nsx_features rows = Inr table" for rows table
    using that by (simp add: catalog_table_def split: if_splits)
  with assms show ?thesis
    unfolding main_def
    by (elim pbind_Return) (auto dest!: lift_Return)
qed

subsection \<open>When the table is built\<close>

text \<open>
  Whether the table is built depends on the catalog and on the report having rows, never
  on the usage masks: every edition must be in the list, and a report with rows needs a
  catalog that is not empty and has no feature named \<open>NSX Edition\<close>.
\<close>

lemma add_features_ranks:
  assumes "\<forall>f \<in> set cat. edition f \<in> set editions"
    and "getitem df ''NsxFInt'' = Inr (map VInt ms)"
  shows "\<exists>df'. add_features cat df = Inr df' \<and>
           (\<forall>k \<in> feature_name ` set cat.
              \<exists>rs. getitem df' k = Inr (map VInt rs) \<and> length rs = length ms \<and>
                (\<forall>r \<in> set rs. 0 \<le> r \<and> r < 5)) \<and>
           (\<forall>k. k \<notin> feature_name ` set cat \<longrightarrow> getitem df' k = getitem df k)"
  using assms
proof (induction cat arbitrary: df ms)
  case Nil
  then show ?case by simp
next
  case (Cons g gs)
  let ?rs = "map (\<lambda>m. spec_contribution m g) ms"
  let ?df = "setitem df (feature_name g) (map VInt ?rs)"
  have col: "feature_column g (map VInt ms) = Inr (map VInt ?rs)"
    using Cons.prems(1) by (simp add: feature_column_ints comp_def)
  have "\<exists>ms'. getitem ?df ''NsxFInt'' = Inr (map VInt ms') \<and> length ms' = length ms"
  proof (cases "feature_name g = ''NsxFInt''")
    case True
    then have "getitem ?df ''NsxFInt'' = Inr (map VInt ?rs)"
      by (simp add: getitem_setitem)
    then show ?thesis by (metis length_map)
  next
    case False
    then have "getitem ?df ''NsxFInt'' = Inr (map VInt ms)"
      using Cons.prems(2) by (simp add: getitem_setitem)
    then show ?thesis by blast
  qed
  then obtain ms' where ms': "getitem ?df ''NsxFInt'' = Inr (map VInt ms')" "length ms' = length ms"
    by blast
  have "\<forall>f \<in> set gs. edition f \<in> set editions"
    using Cons.prems(1) by simp
  from Cons.IH [OF this ms'(1)] obtain df' where
    run: "add_features gs ?df = Inr df'" and
    ranks: "\<forall>k \<in> feature_name ` set gs.
              \<exists>rs. getitem df' k = Inr (map VInt rs) \<and> length rs = length ms' \<and>
                (\<forall>r \<in> set rs. 0 \<le> r \<and> r < 5)" and
    other: "\<forall>k. k \<notin> feature_name ` set gs \<longrightarrow> getitem df' k = getitem ?df k"
    by blast
  have whole: "add_features (g # gs) df = Inr df'"
    using Cons.prems(2) col run by simp
  have first: "\<exists>rs. getitem df' (feature_name g) = Inr (map VInt rs) \<and> length rs = length ms \<and>
                 (\<forall>r \<in> set rs. 0 \<le> r \<and> r < 5)"
  proof (cases "feature_name g \<in> feature_name ` set gs")
    case True
    with ranks have "\<exists>rs. getitem df' (feature_name g) = Inr (map VInt rs) \<and>
        length rs = length ms' \<and> (\<forall>r \<in> set rs. 0 \<le> r \<and> r < 5)"
      by blast
    with ms'(2) show ?thesis by simp
  next
    case False
    with other have "getitem df' (feature_name g) = Inr (map VInt ?rs)"
      by (simp add: getitem_setitem)
    moreover have "\<forall>r \<in> set ?rs. 0 \<le> r \<and> r < 5"
      using spec_contribution_range by auto
    ultimately show ?thesis
      by (metis length_map)
  qed
  have "\<forall>k \<in> feature_name ` set (g # gs).
          \<exists>rs. getitem df' k = Inr (map VInt rs) \<and> length rs = length ms \<and>
            (\<forall>r \<in> set rs. 0 \<le> r \<and> r < 5)"
    using first ranks ms'(2) by auto
  moreover have "\<forall>k. k \<notin> feature_name ` set (g # gs) \<longrightarrow> getitem df' k = getitem df k"
    using other by (auto simp: getitem_setitem)
  ultimately show ?case
    using whole by blast
qed

lemma edition_ranks_ranks:
  assumes "cat \<noteq> []"
    and "\<forall>k \<in> feature_name ` set cat.
           \<exists>rs. getitem df k = Inr (map VInt rs) \<and> length rs = n \<and> (\<forall>r \<in> set rs. 0 \<le> r \<and> r < 5)"
  shows "\<exists>rs. edition_ranks cat n df = Inr (setitem df ''NSX Edition'' (map VInt rs)) \<and>
           length rs = n \<and> (\<forall>r \<in> set rs. 0 \<le> r \<and> r < 5)"
proof -
  let ?P = "\<lambda>c. \<exists>rs. c = map VInt rs \<and> length rs = n \<and> (\<forall>r \<in> set rs. 0 \<le> r \<and> r < 5)"
  have "\<forall>k \<in> set (map feature_name cat). \<exists>c. getitem df k = Inr c \<and> ?P c"
  proof
    fix k assume "k \<in> set (map feature_name cat)"
    then have "k \<in> feature_name ` set cat" by simp
    with assms(2) obtain rs where
      "getitem df k = Inr (map VInt rs)" "length rs = n" "\<forall>r \<in> set rs. 0 \<le> r \<and> r < 5"
      by blast
    then show "\<exists>c. getitem df k = Inr c \<and> ?P c" by blast
  qed
  from getitems_all [OF this] obtain cols where
    cols: "getitems df (map feature_name cat) = Inr cols" and
    len: "length cols = length (map feature_name cat)" and
    all: "\<forall>c \<in> set cols. ?P c"
    by blast
  from len assms(1) obtain c cs where ccs: "cols = c # cs"
    by (cases cols) auto
  with all obtain a where a: "c = map VInt a" "length a = n" "\<forall>r \<in> set a. 0 \<le> r \<and> r < 5"
    by auto
  have "\<forall>c \<in> set cs. \<exists>rs. c = map VInt rs \<and> length rs = length a \<and> (\<forall>r \<in> set rs. 0 \<le> r \<and> r < 5)"
    using all ccs a(2) by simp
  from fold_max_ranks [OF this a(3)] obtain rs where
    "fold_max (map VInt a) cs = Inr (map VInt rs)" "length rs = length a" "\<forall>r \<in> set rs. 0 \<le> r \<and> r < 5"
    by blast
  then show ?thesis
    using cols ccs a by (auto simp: edition_ranks_def max_axis1_def)
qed

lemma feature_markers_strs:
  assumes "\<forall>k \<in> feature_name ` set cat. \<exists>rs. getitem df k = Inr (map VInt rs) \<and> length rs = n"
  shows "\<exists>df'. feature_markers cat df = Inr df' \<and>
           (\<forall>k. k \<notin> feature_name ` set cat \<longrightarrow> getitem df' k = getitem df k) \<and>
           (\<forall>k \<in> feature_name ` set cat. \<exists>ss. getitem df' k = Inr (map VStr ss) \<and> length ss = n)"
proof -
  let ?P = "\<lambda>c. \<exists>rs. c = map VInt rs \<and> length rs = n"
  let ?g = "\<lambda>v. case v of VInt r \<Rightarrow> VStr (if 0 < r then ''True'' else '''') | _ \<Rightarrow> VStr ''''"
  have "\<forall>k \<in> set (map feature_name cat). \<exists>c. getitem df k = Inr c \<and> ?P c"
  proof
    fix k assume "k \<in> set (map feature_name cat)"
    then have "k \<in> feature_name ` set cat" by simp
    with assms obtain rs where "getitem df k = Inr (map VInt rs)" "length rs = n"
      by blast
    then show "\<exists>c. getitem df k = Inr c \<and> ?P c" by blast
  qed
  from getitems_all [OF this] obtain cols where
    cols: "getitems df (map feature_name cat) = Inr cols" and
    len: "length cols = length (map feature_name cat)" and
    all: "\<forall>c \<in> set cols. ?P c"
    by blast
  have one: "traverse where_positive c = Inr (map ?g c)" if "c \<in> set cols" for c
  proof (rule traverse_map_Inr)
    fix x assume x: "x \<in> set c"
    from all that obtain rs where "c = map VInt rs" by blast
    with x obtain r where "x = VInt r" by auto
    then show "where_positive x = Inr (?g x)" by simp
  qed
  have marks: "traverse (traverse where_positive) cols = Inr (map (map ?g) cols)"
    by (rule traverse_map_Inr) (rule one)
  let ?kvs = "zip (map feature_name cat) (map (map ?g) cols)"
  let ?df = "fold (\<lambda>(k, v) d. setitem d k v) ?kvs df"
  have run: "feature_markers cat df = Inr ?df"
    by (simp add: feature_markers_def cols marks setitems_def)
  have fsts: "map fst ?kvs = map feature_name cat"
    by (rule map_fst_zip) (simp add: len)
  have keys: "fst ` set ?kvs = feature_name ` set cat"
  proof -
    have "fst ` set ?kvs = set (map fst ?kvs)" by (simp only: set_map)
    also have "\<dots> = set (map feature_name cat)" by (simp only: fsts)
    also have "\<dots> = feature_name ` set cat" by (simp only: set_map)
    finally show ?thesis .
  qed
  have other: "\<forall>k. k \<notin> feature_name ` set cat \<longrightarrow> getitem ?df k = getitem df k"
  proof (intro allI impI)
    fix k assume "k \<notin> feature_name ` set cat"
    then have "k \<notin> fst ` set ?kvs" unfolding keys .
    then show "getitem ?df k = getitem df k" by (rule getitem_fold_pairs_other)
  qed
  have strs: "\<exists>ss. getitem ?df k = Inr (map VStr ss) \<and> length ss = n"
    if "k \<in> feature_name ` set cat" for k
  proof -
    from that have "k \<in> fst ` set ?kvs" unfolding keys .
    from getitem_fold_pairs_in [OF this, of df] obtain v where
      v: "v \<in> snd ` set ?kvs" and get: "getitem ?df k = Inr v"
      by blast
    from v obtain k' where "(k', v) \<in> set ?kvs" by auto
    then have "v \<in> set (map (map ?g) cols)"
      by (rule set_zip_rightD)
    then obtain c where c: "c \<in> set cols" and vc: "v = map ?g c" by auto
    from all c obtain rs where rs: "c = map VInt rs" and len: "length rs = n" by blast
    have "v = map VStr (map (\<lambda>r. if 0 < r then ''True'' else '''') rs)"
      unfolding vc rs by simp
    moreover have "length (map (\<lambda>r. if 0 < r then ''True'' else '''') rs) = n"
      using len by simp
    ultimately show ?thesis
      using get by blast
  qed
  from run other strs show ?thesis by blast
qed

lemma edition_names_ranks:
  assumes "getitem df ''NSX Edition'' = Inr (map VInt rs)" and "\<forall>r \<in> set rs. 0 \<le> r \<and> r < 5"
  shows "\<exists>df'. edition_names df = Inr df'"
  using assms edition_at_ints [of rs "\<lambda>r. r"] by (simp add: edition_names_def)

lemma edition_names_strs:
  assumes "getitem df ''NSX Edition'' = Inr (map VStr ss)"
  shows "(\<exists>df'. edition_names df = Inr df') \<longleftrightarrow> ss = []"
  using assms by (cases ss) (simp_all add: edition_names_def)

lemma nsxfint_table_succeeds_iff:
  "(\<exists>out. nsxfint_table cat rows = Inr out) \<longleftrightarrow>
     (\<forall>f \<in> set cat. edition f \<in> set editions) \<and>
     (rows = [] \<or> cat \<noteq> [] \<and> ''NSX Edition'' \<notin> feature_name ` set cat)"
proof (cases "\<forall>f \<in> set cat. edition f \<in> set editions")
  case False
  then obtain f where "f \<in> set cat" and "edition f \<notin> set editions"
    by blast
  then have "nsxfint_table cat rows = Inl ValueError"
    by (rule nsxfint_table_invalid)
  with False show ?thesis by simp
next
  case valid: True
  show ?thesis
  proof (cases "cat = []")
    case True
    then show ?thesis
      by (simp add: nsxfint_table_empty)
  next
    case ne: False
    let ?df0 = "[(''Name'', map fst rows), (''NsxFInt'', map (\<lambda>r. VInt (snd r)) rows)]"
    have "getitem ?df0 ''NsxFInt'' = Inr (map VInt (map snd rows))"
      by simp
    from add_features_ranks [OF valid this] obtain df1 where
      df1: "add_features cat ?df0 = Inr df1" and
      r1: "\<forall>k \<in> feature_name ` set cat.
             \<exists>rs. getitem df1 k = Inr (map VInt rs) \<and> length rs = length rows \<and>
               (\<forall>r \<in> set rs. 0 \<le> r \<and> r < 5)"
      by auto
    from edition_ranks_ranks [OF ne r1] obtain mx where
      df2: "edition_ranks cat (length rows) df1 = Inr (setitem df1 ''NSX Edition'' (map VInt mx))" and
      mx: "length mx = length rows" "\<forall>r \<in> set mx. 0 \<le> r \<and> r < 5"
      by blast
    let ?df2 = "setitem df1 ''NSX Edition'' (map VInt mx)"
    have r2: "\<forall>k \<in> feature_name ` set cat. \<exists>rs. getitem ?df2 k = Inr (map VInt rs) \<and> length rs = length rows"
    proof
      fix k assume "k \<in> feature_name ` set cat"
      with r1 obtain rs where "getitem df1 k = Inr (map VInt rs)" "length rs = length rows"
        by blast
      with mx(1) show "\<exists>rs. getitem ?df2 k = Inr (map VInt rs) \<and> length rs = length rows"
        by (cases "k = ''NSX Edition''") (auto simp: getitem_setitem)
    qed
    from feature_markers_strs [OF r2] obtain df3 where
      df3: "feature_markers cat ?df2 = Inr df3" and
      o3: "\<forall>k. k \<notin> feature_name ` set cat \<longrightarrow> getitem df3 k = getitem ?df2 k" and
      s3: "\<forall>k \<in> feature_name ` set cat. \<exists>ss. getitem df3 k = Inr (map VStr ss) \<and> length ss = length rows"
      by blast
    have run: "nsxfint_table cat rows = edition_names df3"
      by (simp add: nsxfint_table_def rank_table_def df1 df2 df3)
    show ?thesis
    proof (cases "''NSX Edition'' \<in> feature_name ` set cat")
      case True
      with s3 obtain ss where "getitem df3 ''NSX Edition'' = Inr (map VStr ss)" "length ss = length rows"
        by blast
      with edition_names_strs [of df3 ss] have "(\<exists>out. edition_names df3 = Inr out) \<longleftrightarrow> rows = []"
        by auto
      with True valid ne run show ?thesis by simp
    next
      case False
      with o3 have "getitem df3 ''NSX Edition'' = Inr (map VInt mx)"
        by (simp add: getitem_setitem)
      from edition_names_ranks [OF this mx(2)] False valid ne run show ?thesis
        by simp
    qed
  qed
qed

lemma nsxfint_table_row:
  assumes ok: "nsxfint_table cat rows = Inr out"
    and dist: "distinct (map feature_name cat)"
    and mask: "''NsxFInt'' \<notin> feature_name ` set cat"
    and i: "i < length rows"
  shows "(\<exists>ranks. rank_table cat rows = Inr ranks \<and>
            cell ranks ''NSX Edition'' i =
              Some (VInt (Max (spec_contribution (snd (rows ! i)) ` set cat)))) \<and>
         cell out ''NSX Edition'' i =
           Some (VStr (editions ! nat (Max (spec_contribution (snd (rows ! i)) ` set cat)))) \<and>
         (\<forall>f \<in> set cat.
            cell out (feature_name f) i =
              Some (VStr (if 0 < (snd (rows ! i) AND bit_value f) \<and> edition f \<noteq> ''''
                          then ''True'' else '''')))"
proof -
  from i have "rows \<noteq> []" by auto
  with ok nsxfint_table_succeeds_iff [of cat rows]
  have eds: "\<forall>f \<in> set cat. edition f \<in> set editions" and ne: "cat \<noteq> []" and
    ed: "''NSX Edition'' \<notin> feature_name ` set cat"
    by auto
  from rank_table_valid [OF ne dist mask eds, of rows] i
  have ranks: "\<exists>ranks. rank_table cat rows = Inr ranks \<and>
      cell ranks ''NSX Edition'' i = Some (VInt (Max (spec_contribution (snd (rows ! i)) ` set cat)))"
    by (simp add: cell_def getitem_setitem)
  from nsxfint_table_columns [OF ne dist mask ed eds, of rows] ok
  have edcol: "getitem out ''NSX Edition'' =
      Inr (map (\<lambda>r. VStr (editions ! nat (Max ((\<lambda>f. spec_contribution (snd r) f) ` set cat)))) rows)"
    and cols: "\<forall>f \<in> set cat.
      getitem out (feature_name f) =
        Inr (map (\<lambda>r. VStr (if 0 < (snd r AND bit_value f) \<and> edition f \<noteq> ''''
                              then ''True'' else '''')) rows)"
    by auto
  have "cell out ''NSX Edition'' i =
      Some (VStr (editions ! nat (Max (spec_contribution (snd (rows ! i)) ` set cat))))"
    using edcol i by (simp add: cell_def)
  moreover have "\<forall>f \<in> set cat.
      cell out (feature_name f) i =
        Some (VStr (if 0 < (snd (rows ! i) AND bit_value f) \<and> edition f \<noteq> ''''
                    then ''True'' else ''''))"
    using cols i by (simp add: cell_def)
  ultimately show ?thesis
    using ranks by blast
qed

subsection \<open>A row whose usage mask is 0\<close>






subsection \<open>The resolved edition\<close>

text \<open>
  C1 (as the code has it): in every run that builds its table, for a catalog whose
  feature names are pairwise distinct and none of which is \<open>NsxFInt\<close>, and for every
  row, the rank of the row after line 112 is the maximum over the catalog features of the
  feature's edition rank when \<open>usage_mask AND bit_value\<close> is positive and 0
  otherwise, and the edition written is the element of the list at that rank. The maximum
  is taken over the set of features, so the order of the catalog does not matter.
\<close>

theorem edition_is_max_rank:
  assumes "nsxfint_table cat rows = Inr out"
    and "distinct (map feature_name cat)"
    and "''NsxFInt'' \<notin> feature_name ` set cat"
    and "i < length rows"
  shows "(\<exists>ranks. rank_table cat rows = Inr ranks \<and>
            cell ranks ''NSX Edition'' i =
              Some (VInt (Max (spec_contribution (snd (rows ! i)) ` set cat)))) \<and>
         cell out ''NSX Edition'' i =
           Some (VStr (editions ! nat (Max (spec_contribution (snd (rows ! i)) ` set cat))))"
  using nsxfint_table_row [OF assms] by blast

text \<open>C1, at a catalog of two features and a row with both bits set: the rank is 4.\<close>

theorem edition_is_max_rank_witness:
  "nsxfint_table [\<lparr>feature_name = ''Switching'', bit_value = 1, edition = ''Base''\<rparr>,
                  \<lparr>feature_name = ''Firewall'', bit_value = 2, edition = ''Enterprise Plus''\<rparr>]
     [(VStr ''vm1'', 3)] =
     Inr [(''Name'', [VStr ''vm1'']), (''NsxFInt'', [VInt 3]), (''Switching'', [VStr ''True'']),
          (''Firewall'', [VStr ''True'']), (''NSX Edition'', [VStr ''Enterprise Plus''])] \<and>
   Max (spec_contribution 3 `
        set [\<lparr>feature_name = ''Switching'', bit_value = 1, edition = ''Base''\<rparr>,
             \<lparr>feature_name = ''Firewall'', bit_value = 2, edition = ''Enterprise Plus''\<rparr>]) = 4 \<and>
   cell [(''Name'', [VStr ''vm1'']), (''NsxFInt'', [VInt 3]), (''Switching'', [VStr ''True'']),
         (''Firewall'', [VStr ''True'']), (''NSX Edition'', [VStr ''Enterprise Plus''])]
     ''NSX Edition'' 0 = Some (VStr ''Enterprise Plus'')"
  using edition_is_max_rank [of
      "[\<lparr>feature_name = ''Switching'', bit_value = 1, edition = ''Base''\<rparr>,
        \<lparr>feature_name = ''Firewall'', bit_value = 2, edition = ''Enterprise Plus''\<rparr>]"
      "[(VStr ''vm1'', 3)]"
      "[(''Name'', [VStr ''vm1'']), (''NsxFInt'', [VInt 3]), (''Switching'', [VStr ''True'']),
        (''Firewall'', [VStr ''True'']), (''NSX Edition'', [VStr ''Enterprise Plus''])]" 0]
  by (simp add: rank_table_def nsxfint_table_def feature_column_def edition_ranks_def getitems_def
      max_axis1_def feature_markers_def setitems_def edition_names_def editions_def cell_def
      spec_contribution_def spec_active_def spec_rank_def)

text \<open>
  C1 as stated fails: a catalog row named \<open>NsxFInt\<close> replaces the usage column by
  its ranks, so the later feature \<open>Firewall\<close> is tested against 0 instead of the usage
  mask 2; the rank of the row is 0 and its edition is empty, where the maximum over the
  features is 3, the rank of \<open>Advanced\<close>.
\<close>

theorem overwritten_mask_rank_counterexample:
  "rank_table [\<lparr>feature_name = ''NsxFInt'', bit_value = 1, edition = ''Base''\<rparr>,
               \<lparr>feature_name = ''Firewall'', bit_value = 2, edition = ''Advanced''\<rparr>]
     [(VStr ''vm1'', 2)] =
     Inr [(''Name'', [VStr ''vm1'']), (''NsxFInt'', [VInt 0]), (''Firewall'', [VInt 0]),
          (''NSX Edition'', [VInt 0])] \<and>
   nsxfint_table [\<lparr>feature_name = ''NsxFInt'', bit_value = 1, edition = ''Base''\<rparr>,
                  \<lparr>feature_name = ''Firewall'', bit_value = 2, edition = ''Advanced''\<rparr>]
     [(VStr ''vm1'', 2)] =
     Inr [(''Name'', [VStr ''vm1'']), (''NsxFInt'', [VStr '''']), (''Firewall'', [VStr '''']),
          (''NSX Edition'', [VStr ''''])] \<and>
   Max (spec_contribution 2 `
        set [\<lparr>feature_name = ''NsxFInt'', bit_value = 1, edition = ''Base''\<rparr>,
             \<lparr>feature_name = ''Firewall'', bit_value = 2, edition = ''Advanced''\<rparr>]) = 3 \<and>
   editions ! 3 = ''Advanced''"
  by (simp add: rank_table_def nsxfint_table_def feature_column_def edition_ranks_def getitems_def
      max_axis1_def feature_markers_def setitems_def edition_names_def editions_def
      spec_contribution_def spec_active_def spec_rank_def)

subsection \<open>Feature markers\<close>

text \<open>
  C2 (as the code has it): in every run that builds its table, for a catalog whose
  feature names are pairwise distinct and none of which is \<open>NsxFInt\<close>, the column of
  a feature holds in a row the marker \<open>True\<close> exactly when \<open>usage_mask AND bit_value\<close>
  is positive and the feature's edition is not the empty edition of rank 0, and the empty
  string otherwise; in particular a feature whose bits are absent from the usage mask is
  not marked.
\<close>

theorem feature_marked_iff_active:
  assumes "nsxfint_table cat rows = Inr out"
    and "distinct (map feature_name cat)"
    and "''NsxFInt'' \<notin> feature_name ` set cat"
    and "i < length rows"
    and "f \<in> set cat"
  shows "cell out (feature_name f) i =
           Some (VStr (if 0 < (snd (rows ! i) AND bit_value f) \<and> edition f \<noteq> ''''
                       then ''True'' else ''''))"
  using nsxfint_table_row [OF assms(1-4)] assms(5) by blast

text \<open>C2, at a feature of two bits and a row that has one of them.\<close>

theorem feature_marked_iff_active_witness:
  "nsxfint_table [\<lparr>feature_name = ''Switching'', bit_value = 1, edition = ''Base''\<rparr>,
                  \<lparr>feature_name = ''Firewall'', bit_value = 6, edition = ''Advanced''\<rparr>]
     [(VStr ''vm1'', 4), (VStr ''vm2'', 1), (VStr ''vm3'', 8)] =
     Inr [(''Name'', [VStr ''vm1'', VStr ''vm2'', VStr ''vm3'']),
          (''NsxFInt'', [VInt 4, VInt 1, VInt 8]),
          (''Switching'', [VStr '''', VStr ''True'', VStr '''']),
          (''Firewall'', [VStr ''True'', VStr '''', VStr '''']),
          (''NSX Edition'', [VStr ''Advanced'', VStr ''Base'', VStr ''''])] \<and>
   cell [(''Name'', [VStr ''vm1'', VStr ''vm2'', VStr ''vm3'']),
         (''NsxFInt'', [VInt 4, VInt 1, VInt 8]),
         (''Switching'', [VStr '''', VStr ''True'', VStr '''']),
         (''Firewall'', [VStr ''True'', VStr '''', VStr '''']),
         (''NSX Edition'', [VStr ''Advanced'', VStr ''Base'', VStr ''''])] ''Firewall'' 0 =
     Some (VStr ''True'') \<and>
   0 < (4::int) AND 6"
  using feature_marked_iff_active [of
      "[\<lparr>feature_name = ''Switching'', bit_value = 1, edition = ''Base''\<rparr>,
        \<lparr>feature_name = ''Firewall'', bit_value = 6, edition = ''Advanced''\<rparr>]"
      "[(VStr ''vm1'', 4), (VStr ''vm2'', 1), (VStr ''vm3'', 8)]"
      "[(''Name'', [VStr ''vm1'', VStr ''vm2'', VStr ''vm3'']),
        (''NsxFInt'', [VInt 4, VInt 1, VInt 8]),
        (''Switching'', [VStr '''', VStr ''True'', VStr '''']),
        (''Firewall'', [VStr ''True'', VStr '''', VStr '''']),
        (''NSX Edition'', [VStr ''Advanced'', VStr ''Base'', VStr ''''])]" 0
      "\<lparr>feature_name = ''Firewall'', bit_value = 6, edition = ''Advanced''\<rparr>"]
  by (simp add: rank_table_def nsxfint_table_def feature_column_def edition_ranks_def getitems_def
      max_axis1_def feature_markers_def setitems_def edition_names_def editions_def cell_def)

text \<open>
  C2 as stated fails: after a catalog row named \<open>NsxFInt\<close> has replaced the usage
  column by its ranks, \<open>Firewall\<close> (bit 2) is marked for a row whose usage mask is 1,
  although \<open>1 AND 2 = 0\<close>.
\<close>

theorem overwritten_mask_marker_counterexample:
  "nsxfint_table [\<lparr>feature_name = ''NsxFInt'', bit_value = 1, edition = ''Advanced''\<rparr>,
                  \<lparr>feature_name = ''Firewall'', bit_value = 2, edition = ''Base''\<rparr>]
     [(VStr ''vm1'', 1)] =
     Inr [(''Name'', [VStr ''vm1'']), (''NsxFInt'', [VStr ''True'']), (''Firewall'', [VStr ''True'']),
          (''NSX Edition'', [VStr ''Advanced''])] \<and>
   (1::int) AND 2 = 0"
  by (simp add: rank_table_def nsxfint_table_def feature_column_def edition_ranks_def getitems_def
      max_axis1_def feature_markers_def setitems_def edition_names_def editions_def)

subsection \<open>Missing masks and rows without usage\<close>




subsection \<open>The columns of the output\<close>

text \<open>
  C4 (as the code has it): in every run that builds its table, for a catalog whose
  feature names are pairwise distinct and none of \<open>Name\<close>, \<open>NsxFInt\<close> and
  \<open>NSX Edition\<close>, the columns of the table are \<open>Name\<close>, \<open>NsxFInt\<close>, one column
  per catalog feature in catalog order, and \<open>NSX Edition\<close>; each feature column holds
  \<open>True\<close> where the rank computed for the feature is positive and the empty string
  where it is 0.
\<close>

theorem output_columns:
  assumes ok: "nsxfint_table cat rows = Inr out"
    and dist: "distinct (map feature_name cat)"
    and name: "''Name'' \<notin> feature_name ` set cat"
    and mask: "''NsxFInt'' \<notin> feature_name ` set cat"
    and ed: "''NSX Edition'' \<notin> feature_name ` set cat"
  shows "map fst out = [''Name'', ''NsxFInt''] @ map feature_name cat @ [''NSX Edition''] \<and>
         (\<exists>ranks.
            rank_table cat rows = Inr ranks \<and>
            (\<forall>f \<in> set cat. \<exists>col.
               getitem ranks (feature_name f) = Inr (map VInt col) \<and>
               getitem out (feature_name f) =
                 Inr (map (\<lambda>r. VStr (if 0 < r then ''True'' else '''')) col)))"
proof (cases "cat = []")
  case True
  with ok nsxfint_table_succeeds_iff [of cat rows] have "rows = []"
    by auto
  with True ok show ?thesis
    by (auto simp: nsxfint_table_empty rank_table_empty)
next
  case False
  from ok nsxfint_table_succeeds_iff [of cat rows]
  have eds: "\<forall>f \<in> set cat. edition f \<in> set editions"
    by auto
  from nsxfint_table_keys [OF False dist name mask ed eds, of rows] ok show ?thesis
    by auto
qed

text \<open>C4, at the catalog of one feature and two rows.\<close>

theorem output_columns_witness:
  "nsxfint_table [\<lparr>feature_name = ''Micro-segmentation'', bit_value = 4, edition = ''Advanced''\<rparr>]
     [(VStr ''vm1'', 4), (VStr ''vm2'', 0)] =
     Inr [(''Name'', [VStr ''vm1'', VStr ''vm2'']), (''NsxFInt'', [VInt 4, VInt 0]),
          (''Micro-segmentation'', [VStr ''True'', VStr '''']),
          (''NSX Edition'', [VStr ''Advanced'', VStr ''''])] \<and>
   rank_table [\<lparr>feature_name = ''Micro-segmentation'', bit_value = 4, edition = ''Advanced''\<rparr>]
     [(VStr ''vm1'', 4), (VStr ''vm2'', 0)] =
     Inr [(''Name'', [VStr ''vm1'', VStr ''vm2'']), (''NsxFInt'', [VInt 4, VInt 0]),
          (''Micro-segmentation'', [VInt 3, VInt 0]), (''NSX Edition'', [VInt 3, VInt 0])] \<and>
   map fst [(''Name'', [VStr ''vm1'', VStr ''vm2'']), (''NsxFInt'', [VInt 4, VInt 0]),
            (''Micro-segmentation'', [VStr ''True'', VStr '''']),
            (''NSX Edition'', [VStr ''Advanced'', VStr ''''])] =
     [''Name'', ''NsxFInt'', ''Micro-segmentation'', ''NSX Edition'']"
  using output_columns [of
      "[\<lparr>feature_name = ''Micro-segmentation'', bit_value = 4, edition = ''Advanced''\<rparr>]"
      "[(VStr ''vm1'', 4), (VStr ''vm2'', 0)]"
      "[(''Name'', [VStr ''vm1'', VStr ''vm2'']), (''NsxFInt'', [VInt 4, VInt 0]),
        (''Micro-segmentation'', [VStr ''True'', VStr '''']),
        (''NSX Edition'', [VStr ''Advanced'', VStr ''''])]"]
  by (simp add: rank_table_def nsxfint_table_def feature_column_def edition_ranks_def getitems_def
      max_axis1_def feature_markers_def setitems_def edition_names_def editions_def)

text \<open>
  C4 as stated fails: the table has the column \<open>NsxFInt\<close> between the name and the
  feature columns.
\<close>

theorem usage_column_written_counterexample:
  "nsxfint_table [\<lparr>feature_name = ''Micro-segmentation'', bit_value = 4, edition = ''Advanced''\<rparr>]
     [(VStr ''vm1'', 4)] =
     Inr [(''Name'', [VStr ''vm1'']), (''NsxFInt'', [VInt 4]),
          (''Micro-segmentation'', [VStr ''True'']), (''NSX Edition'', [VStr ''Advanced''])] \<and>
   map fst [(''Name'', [VStr ''vm1'']), (''NsxFInt'', [VInt 4]),
            (''Micro-segmentation'', [VStr ''True'']), (''NSX Edition'', [VStr ''Advanced''])] \<noteq>
     [''Name''] @
     map feature_name [\<lparr>feature_name = ''Micro-segmentation'', bit_value = 4, edition = ''Advanced''\<rparr>] @
     [''NSX Edition'']"
  by (simp add: rank_table_def nsxfint_table_def feature_column_def edition_ranks_def getitems_def
      max_axis1_def feature_markers_def setitems_def edition_names_def editions_def)

subsection \<open>An edition outside the list\<close>

text \<open>
  C5: when a feature of the catalog has an edition that is not in the list, the rank
  lookup for it raises \<open>ValueError\<close>, building the table fails with that error for
  every list of rows, and no run of \<open>main\<close> returns, so nothing is written.
\<close>

theorem invalid_edition_aborts:
  assumes "f \<in> set (dropna nsx_features)" and "edition f \<notin> set editions"
  shows "index editions (edition f) = Inl ValueError \<and>
         nsxfint_table (dropna nsx_features) rows = Inl ValueError \<and>
         (\<forall>res out. main read_csv nsx_features a inp \<noteq> Return res out)"
proof -
  have tab: "nsxfint_table (dropna nsx_features) rs = Inl ValueError" for rs
    using assms by (rule nsxfint_table_invalid)
  have "main read_csv nsx_features a inp \<noteq> Return res out" for res out
  proof
    assume "main read_csv nsx_features a inp = Return res out"
    from main_Return [OF this] tab show False by auto
  qed
  with tab [of rows] index_absent [OF assms(2)] show ?thesis by blast
qed

text \<open>C5, at a catalog whose only feature has the edition \<open>Enterprise\<close>.\<close>

theorem invalid_edition_aborts_witness:
  "index editions ''Enterprise'' = Inl ValueError \<and>
   nsxfint_table
     (dropna [\<lparr>raw_name = Some ''Firewall'', raw_bit = Some 2, raw_edition = Some ''Enterprise'',
               raw_other = []\<rparr>])
     [(VStr ''vm1'', 0)] = Inl ValueError \<and>
   main (parsed_as [(''Name'', [VStr ''vm1'']), (''NsxFInt'', [VInt 0])])
     [\<lparr>raw_name = Some ''Firewall'', raw_bit = Some 2, raw_edition = Some ''Enterprise'',
       raw_other = []\<rparr>]
     \<lparr>arg_input = ''vmh.tsv'', arg_output = ''nsxfint.csv'', arg_debug = False, arg_verbose = True\<rparr>
     \<lparr>in_exists = True, in_suffix = ''.tsv'',
      in_lines = [''Name'' @ [TAB] @ ''NsxFInt'' @ [CHR 0x0A], ''vm1'' @ [TAB] @ ''0'' @ [CHR 0x0A]]\<rparr> =
   Raised ValueError [''VERBOSE: Reading input file vmh.tsv...'', ''INFO: Determining rows to skip...'',
     ''INFO: Rows to skip: []'', ''VERBOSE: Reading NSX Features...'']"
proof -
  have "nsxfint_table
     (dropna [\<lparr>raw_name = Some ''Firewall'', raw_bit = Some 2, raw_edition = Some ''Enterprise'',
               raw_other = []\<rparr>])
     [(VStr ''vm1'', 0)] = Inl ValueError"
    using invalid_edition_aborts [of
      "\<lparr>feature_name = ''Firewall'', bit_value = 2, edition = ''Enterprise''\<rparr>"
      "[\<lparr>raw_name = Some ''Firewall'', raw_bit = Some 2, raw_edition = Some ''Enterprise'',
         raw_other = []\<rparr>]"
      "[(VStr ''vm1'', 0)]"]
    by (simp add: dropna_def editions_def)
  then show ?thesis
    by (simp add: editions_def main_def read_vmh_def parsed_as_def catalog_table_def nsxfint_is_float_def log_def skip_rows_def rows_to_skip_def
        show_list_def rename_def TAB_def normalise_def usage_mask_def replace_def in_int64_def)
qed

subsection \<open>An empty catalog\<close>

text \<open>
  C9 (as the code has it): when \<open>dropna\<close> leaves no catalog row, no feature column is
  added; for a report without rows the table is built, with the columns \<open>Name\<close>,
  \<open>NsxFInt\<close> and \<open>NSX Edition\<close>; for a report with at least one row the maximum over
  no column is NaN and the edition lookup raises \<open>TypeError\<close>. So a run that returns
  has written the table without rows.
\<close>

theorem empty_catalog:
  assumes "dropna nsx_features = []"
  shows "nsxfint_table (dropna nsx_features) rows =
           (if rows = [] then Inr [(''Name'', []), (''NsxFInt'', []), (''NSX Edition'', [])]
            else Inl TypeError) \<and>
         (\<forall>res out. main read_csv nsx_features a inp = Return res out \<longrightarrow>
            res = (arg_output a, [(''Name'', []), (''NsxFInt'', []), (''NSX Edition'', [])]))"
proof -
  have "res = (arg_output a, [(''Name'', []), (''NsxFInt'', []), (''NSX Edition'', [])])"
    if "main read_csv nsx_features a inp = Return res out" for res out
  proof -
    from main_Return [OF that] obtain rs table where
      "nsxfint_table (dropna nsx_features) rs = Inr table" and "res = (arg_output a, table)"
      by blast
    then show ?thesis
      using assms by (auto simp: nsxfint_table_empty split: if_splits)
  qed
  then show ?thesis
    using assms by (simp add: nsxfint_table_empty)
qed

text \<open>C9, at a catalog of two rows with a missing field each.\<close>

theorem empty_catalog_witness:
  "nsxfint_table
     (dropna [\<lparr>raw_name = Some ''Firewall'', raw_bit = Some 2, raw_edition = None, raw_other = []\<rparr>,
              \<lparr>raw_name = None, raw_bit = Some 4, raw_edition = Some ''Base'', raw_other = []\<rparr>])
     [] = Inr [(''Name'', []), (''NsxFInt'', []), (''NSX Edition'', [])] \<and>
   nsxfint_table
     (dropna [\<lparr>raw_name = Some ''Firewall'', raw_bit = Some 2, raw_edition = None, raw_other = []\<rparr>,
              \<lparr>raw_name = None, raw_bit = Some 4, raw_edition = Some ''Base'', raw_other = []\<rparr>])
     [(VStr ''vm1'', 4)] = Inl TypeError"
  using empty_catalog [of
      "[\<lparr>raw_name = Some ''Firewall'', raw_bit = Some 2, raw_edition = None, raw_other = []\<rparr>,
        \<lparr>raw_name = None, raw_bit = Some 4, raw_edition = Some ''Base'', raw_other = []\<rparr>]" "[]"]
    empty_catalog [of
      "[\<lparr>raw_name = Some ''Firewall'', raw_bit = Some 2, raw_edition = None, raw_other = []\<rparr>,
        \<lparr>raw_name = None, raw_bit = Some 4, raw_edition = Some ''Base'', raw_other = []\<rparr>]"
      "[(VStr ''vm1'', 4)]"]
  by (simp add: dropna_def)

text \<open>
  C9 as stated fails: with the only catalog row dropped and one row in the report, the run
  dies from \<open>TypeError\<close> and writes nothing.
\<close>

theorem empty_catalog_counterexample:
  "dropna [\<lparr>raw_name = Some ''Firewall'', raw_bit = Some 2, raw_edition = None, raw_other = []\<rparr>] = [] \<and>
   main (parsed_as [(''Name'', [VStr ''vm1'']), (''NsxFInt'', [VInt 4])])
     [\<lparr>raw_name = Some ''Firewall'', raw_bit = Some 2, raw_edition = None, raw_other = []\<rparr>]
     \<lparr>arg_input = ''vmh.tsv'', arg_output = ''nsxfint.csv'', arg_debug = False, arg_verbose = False\<rparr>
     \<lparr>in_exists = True, in_suffix = ''.tsv'',
      in_lines = [''Name'' @ [TAB] @ ''NsxFInt'' @ [CHR 0x0A], ''vm1'' @ [TAB] @ ''4'' @ [CHR 0x0A]]\<rparr> =
   Raised TypeError [''INFO: Reading input file vmh.tsv...'', ''INFO: Determining rows to skip...'',
     ''INFO: Rows to skip: []'', ''INFO: Reading NSX Features...'']"
  by (simp add: dropna_def main_def read_vmh_def parsed_as_def catalog_table_def nsxfint_is_float_def log_def skip_rows_def rows_to_skip_def show_list_def
      rename_def TAB_def normalise_def usage_mask_def replace_def in_int64_def
      rank_table_def nsxfint_table_def edition_ranks_def getitems_def
      max_axis1_def feature_markers_def setitems_def edition_names_def)

subsection \<open>Negative usage masks\<close>




end
